theory Spec2Isabelle
  imports Complex_Main "HOL-Library.Log_Nat" "HOL-Library.Word"
begin

section \<open>JavaScript numbers\<close>

text \<open>
  Every number of the program is an IEEE-754 binary64 value, and every arithmetic
  operation returns the exact result rounded to the nearest binary64 value, ties to the
  even significand. A finite number is modelled by the real it denotes; \<open>fl\<close> is the
  rounding (53 bits of precision, smallest quantum \<open>2 powi -1074\<close>, so subnormal results
  are covered). \<open>f32\<close> is the rounding of a \<^verbatim>\<open>Float32Array\<close> store (24 bits, smallest
  quantum \<open>2 powi -149\<close>). Infinities and NaN are outside the model: no operation below
  overflows on finite arguments of the size a canvas and its options can have, and the
  results of a division by zero are never used by the code paths modelled here.
\<close>

definition round_even :: "real \<Rightarrow> int" where
  "round_even y =
     (let f = \<lfloor>y\<rfloor>; d = y - of_int f
      in if d < 1/2 then f else if 1/2 < d then f + 1 else if even f then f else f + 1)"

definition flog2 :: "real \<Rightarrow> int" where
  "flog2 x = (if 1 \<le> x then bitlen \<lfloor>x\<rfloor> - 1 else - bitlen (\<lceil>1 / x\<rceil> - 1))"

definition quantum :: "nat \<Rightarrow> int \<Rightarrow> real \<Rightarrow> int" where
  "quantum p emin x = max (flog2 \<bar>x\<bar> - (int p - 1)) emin"

definition round_fp :: "nat \<Rightarrow> int \<Rightarrow> real \<Rightarrow> real" where
  "round_fp p emin x =
     (if x = 0 then 0
      else of_int (round_even (x / 2 powi quantum p emin x)) * 2 powi quantum p emin x)"

definition fl :: "real \<Rightarrow> real" where
  "fl = round_fp 53 (- 1074)"

definition f32 :: "real \<Rightarrow> real" where
  "f32 = round_fp 24 (- 149)"

text \<open>The four operations, and a decimal literal of the source (the nearest binary64).\<close>

definition fadd :: "real \<Rightarrow> real \<Rightarrow> real" where
  "fadd x y = fl (x + y)"

definition fsub :: "real \<Rightarrow> real \<Rightarrow> real" where
  "fsub x y = fl (x - y)"

definition fmul :: "real \<Rightarrow> real \<Rightarrow> real" where
  "fmul x y = fl (x * y)"

definition fdiv :: "real \<Rightarrow> real \<Rightarrow> real" where
  "fdiv x y = fl (x / y)"

definition lit :: "real \<Rightarrow> real" where
  "lit q = fl q"

text \<open>\<^verbatim>\<open>Math.max(0, Math.min(1, v))\<close>\<close>

definition clamp01 :: "real \<Rightarrow> real" where
  "clamp01 v = max 0 (min 1 v)"

section \<open>ASCIIMapper (src/core/svgParser.ts)\<close>

text \<open>
  A canvas is its size, the RGBA8 bytes \<^verbatim>\<open>getImageData\<close> returns for it (row-major, four
  bytes per pixel) and whether \<^verbatim>\<open>getContext('2d')\<close> yields a context. \<open>wf_canvas\<close> is the
  invariant of every \<^verbatim>\<open>ImageData\<close>: the buffer holds exactly \<open>4 * width * height\<close> bytes.
\<close>

record canvas =
  canvas_width :: nat
  canvas_height :: nat
  data :: "8 word list"
  has_context :: bool

definition wf_canvas :: "canvas \<Rightarrow> bool" where
  "wf_canvas cv = (length (data cv) = 4 * canvas_width cv * canvas_height cv)"

text \<open>
  \<^verbatim>\<open>ASCIIMapperOptions\<close>: every field is optional; \<open>None\<close> is a field left out (or
  \<^verbatim>\<open>undefined\<close>), for which the destructuring of \<^verbatim>\<open>canvasToASCII\<close> takes its default.
  Widths and heights are natural numbers here.
\<close>

record options =
  opt_width :: "nat option"
  opt_height :: "nat option"
  characterSet :: "string option"
  invert :: "bool option"
  maintainAspectRatio :: "bool option"
  contrast :: "real option"
  edgeEnhance :: "bool option"

record ascii_result =
  ascii :: string
  width :: nat
  height :: nat

text \<open>
  What \<^verbatim>\<open>canvasToASCII\<close> can throw: its own \<^verbatim>\<open>Error('Cannot get canvas context')\<close>, and the
  \<^verbatim>\<open>IndexSizeError\<close> of \<^verbatim>\<open>getImageData\<close> on a canvas with a zero side.
\<close>

datatype error = CannotGetContext | IndexSizeError

definition CHARSET_STANDARD :: string where
  "CHARSET_STANDARD = ''@&#*+=-. ''"

definition CHARSET_DETAILED :: string where
  "CHARSET_DETAILED = ''@%#*+=-:. ''"

definition CHAR_ASPECT_RATIO :: real where
  "CHAR_ASPECT_RATIO = 55 / 100"

text \<open>
  The target size (lines 239-259). The products and quotients are of integers below
  \<open>2 ^ 53\<close>, where \<^verbatim>\<open>Math.floor(a / b)\<close> is the integer quotient. \<^verbatim>\<open>width\<close> has the default 80,
  so the branch \<^verbatim>\<open>targetWidth === undefined\<close> is never taken. \<^verbatim>\<open>!targetHeight\<close> holds for
  \<^verbatim>\<open>undefined\<close> and for 0.
\<close>

definition targetWidth :: "options \<Rightarrow> nat" where
  "targetWidth opts = (case opt_width opts of None \<Rightarrow> 80 | Some w \<Rightarrow> w)"

definition targetHeight :: "canvas \<Rightarrow> options \<Rightarrow> nat" where
  "targetHeight cv opts =
     (let tw = targetWidth opts;
          th = (if (case maintainAspectRatio opts of None \<Rightarrow> True | Some m \<Rightarrow> m)
                then (case opt_height opts of
                        None \<Rightarrow> Some ((tw * canvas_height cv) div (canvas_width cv * 2))
                      | Some h \<Rightarrow> Some h)
                else opt_height opts)
      in case th of
           None \<Rightarrow> tw div 2
         | Some h \<Rightarrow> if h = 0 then tw div 2 else h)"

text \<open>
  The sampling loops of one cell (lines 280-293): the sums of the four channels over the
  source rectangle and the number of samples.
\<close>

definition samplePixel :: "canvas \<Rightarrow> nat \<Rightarrow> nat \<Rightarrow> nat \<times> nat \<times> nat \<times> nat \<times> nat
    \<Rightarrow> nat \<times> nat \<times> nat \<times> nat \<times> nat" where
  "samplePixel cv py px acc =
     (case acc of (totalR, totalG, totalB, totalA, sampleCount) \<Rightarrow>
        let pixelIndex = (py * canvas_width cv + px) * 4
        in (totalR + unat (data cv ! pixelIndex),
            totalG + unat (data cv ! (pixelIndex + 1)),
            totalB + unat (data cv ! (pixelIndex + 2)),
            totalA + unat (data cv ! (pixelIndex + 3)),
            sampleCount + 1))"

definition sampleRegion :: "canvas \<Rightarrow> nat \<Rightarrow> nat \<Rightarrow> nat \<Rightarrow> nat
    \<Rightarrow> nat \<times> nat \<times> nat \<times> nat \<times> nat" where
  "sampleRegion cv startX endX startY endY =
     fold (\<lambda>py acc. fold (samplePixel cv py) [startX..<endX] acc) [startY..<endY]
       (0, 0, 0, 0, 0)"

text \<open>Lines 301-308: the weighted sum scaled by alpha, composited on white below alpha 1.\<close>

definition weightedRGB :: "real \<Rightarrow> real \<Rightarrow> real \<Rightarrow> real" where
  "weightedRGB r g b =
     fadd (fadd (fmul (lit (299/1000)) r) (fmul (lit (587/1000)) g)) (fmul (lit (114/1000)) b)"

definition compositeLuminance :: "real \<Rightarrow> real \<Rightarrow> real \<Rightarrow> real \<Rightarrow> real" where
  "compositeLuminance r g b a =
     (let luminance = fmul (weightedRGB r g b) a
      in if a < 1 then fadd luminance (fmul 255 (fsub 1 a)) else luminance)"

text \<open>Lines 310-322: normalisation, contrast, inversion.\<close>

definition adjustLuminance :: "real \<Rightarrow> bool \<Rightarrow> real \<Rightarrow> real" where
  "adjustLuminance ctr ivt l =
     (let luminance = fdiv l 255;
          luminance = (if ctr \<noteq> 1
                       then clamp01 (fadd (fmul (fsub luminance (lit (5/10))) ctr) (lit (5/10)))
                       else luminance)
      in if ivt then fsub 1 luminance else luminance)"

text \<open>The body of the first pass for the cell \<open>(x, y)\<close> (lines 275-322).\<close>

definition cellLuminance :: "canvas \<Rightarrow> real \<Rightarrow> real \<Rightarrow> real \<Rightarrow> bool \<Rightarrow> nat \<Rightarrow> nat \<Rightarrow> real" where
  "cellLuminance cv stepX stepY ctr ivt x y =
     (let startX = nat \<lfloor>fmul (real x) stepX\<rfloor>;
          startY = nat \<lfloor>fmul (real y) stepY\<rfloor>;
          endX = min (nat \<lfloor>fmul (real (x + 1)) stepX\<rfloor>) (canvas_width cv);
          endY = min (nat \<lfloor>fmul (real (y + 1)) stepY\<rfloor>) (canvas_height cv)
      in case sampleRegion cv startX endX startY endY of
           (totalR, totalG, totalB, totalA, sampleCount) \<Rightarrow>
             let r = (if sampleCount > 0 then fdiv (real totalR) (real sampleCount) else 255);
                 g = (if sampleCount > 0 then fdiv (real totalG) (real sampleCount) else 255);
                 b = (if sampleCount > 0 then fdiv (real totalB) (real sampleCount) else 255);
                 a = (if sampleCount > 0
                      then fdiv (fdiv (real totalA) (real sampleCount)) 255 else 1)
             in adjustLuminance ctr ivt (compositeLuminance r g b a))"

text \<open>
  The averages of that body on their own (lines 275-299): the means \<^verbatim>\<open>r\<close>, \<^verbatim>\<open>g\<close>, \<^verbatim>\<open>b\<close>
  of the colour channels over the sampling rectangle of the cell \<open>(x, y)\<close> and the mean
  alpha \<^verbatim>\<open>a\<close> scaled to \<open>[0, 1]\<close>; a rectangle without a pixel counts as opaque white.
\<close>

definition cellAverage :: "canvas \<Rightarrow> real \<Rightarrow> real \<Rightarrow> nat \<Rightarrow> nat \<Rightarrow> real \<times> real \<times> real \<times> real" where
  "cellAverage cv stepX stepY x y =
     (let startX = nat \<lfloor>fmul (real x) stepX\<rfloor>;
          startY = nat \<lfloor>fmul (real y) stepY\<rfloor>;
          endX = min (nat \<lfloor>fmul (real (x + 1)) stepX\<rfloor>) (canvas_width cv);
          endY = min (nat \<lfloor>fmul (real (y + 1)) stepY\<rfloor>) (canvas_height cv)
      in case sampleRegion cv startX endX startY endY of
           (totalR, totalG, totalB, totalA, sampleCount) \<Rightarrow>
             (if sampleCount > 0 then fdiv (real totalR) (real sampleCount) else 255,
              if sampleCount > 0 then fdiv (real totalG) (real sampleCount) else 255,
              if sampleCount > 0 then fdiv (real totalB) (real sampleCount) else 255,
              if sampleCount > 0 then fdiv (fdiv (real totalA) (real sampleCount)) 255 else 1))"

text \<open>
  The first pass (lines 270-327): a \<^verbatim>\<open>Float32Array\<close> of \<open>targetWidth * targetHeight\<close> zeros,
  written cell by cell; each store rounds to binary32.
\<close>

definition firstPass :: "canvas \<Rightarrow> nat \<Rightarrow> nat \<Rightarrow> real \<Rightarrow> bool \<Rightarrow> real list" where
  "firstPass cv tw th ctr ivt =
     (let stepX = fdiv (real (canvas_width cv)) (real tw);
          stepY = fdiv (real (canvas_height cv)) (real th)
      in fold (\<lambda>y luminanceMap.
                 fold (\<lambda>x luminanceMap.
                         luminanceMap[y * tw + x := f32 (cellLuminance cv stepX stepY ctr ivt x y)])
                   [0..<tw] luminanceMap)
           [0..<th] (replicate (tw * th) 0))"

text \<open>
  \<^verbatim>\<open>luminanceToChar\<close> (lines 368-371). Indexing a string out of range, or with a negative
  index, gives \<^verbatim>\<open>undefined\<close>, here \<open>None\<close>.
\<close>

definition charAt :: "string \<Rightarrow> int \<Rightarrow> char option" where
  "charAt s i = (if 0 \<le> i \<and> i < int (length s) then Some (s ! nat i) else None)"

definition rampIndex :: "real \<Rightarrow> string \<Rightarrow> int" where
  "rampIndex luminance cs =
     (let index = \<lfloor>fmul luminance (of_int (int (length cs) - 1))\<rfloor>
      in min index (int (length cs) - 1))"

definition luminanceToChar :: "real \<Rightarrow> string \<Rightarrow> char option" where
  "luminanceToChar luminance cs = charAt cs (rampIndex luminance cs)"

text \<open>\<^verbatim>\<open>ascii += char\<close>: appending \<^verbatim>\<open>undefined\<close> to a string appends its name.\<close>

definition charText :: "char option \<Rightarrow> string" where
  "charText c = (case c of None \<Rightarrow> ''undefined'' | Some ch \<Rightarrow> [ch])"

definition appendChar :: "string \<Rightarrow> char option \<Rightarrow> string" where
  "appendChar s c = s @ charText c"

text \<open>
  The luminance a cell is displayed with (lines 333-349): the stored value, and for an
  interior cell under edge enhancement the stored value less half the Sobel magnitude of
  its eight neighbours in the stored map, clamped. The sums are taken left to right.
\<close>

definition sobelX :: "real list \<Rightarrow> nat \<Rightarrow> nat \<Rightarrow> real" where
  "sobelX lm tw idx =
     fadd (fsub (fadd (fsub (fadd (- (lm ! (idx - tw - 1))) (lm ! (idx - tw + 1)))
                            (fmul 2 (lm ! (idx - 1))))
                      (fmul 2 (lm ! (idx + 1))))
                (lm ! (idx + tw - 1)))
          (lm ! (idx + tw + 1))"

definition sobelY :: "real list \<Rightarrow> nat \<Rightarrow> nat \<Rightarrow> real" where
  "sobelY lm tw idx =
     fadd (fadd (fadd (fsub (fsub (- (lm ! (idx - tw - 1))) (fmul 2 (lm ! (idx - tw))))
                            (lm ! (idx - tw + 1)))
                      (lm ! (idx + tw - 1)))
                (fmul 2 (lm ! (idx + tw))))
          (lm ! (idx + tw + 1))"

definition displayLuminance :: "real list \<Rightarrow> nat \<Rightarrow> nat \<Rightarrow> bool \<Rightarrow> nat \<Rightarrow> nat \<Rightarrow> real" where
  "displayLuminance lm tw th edge x y =
     (let luminance = lm ! (y * tw + x)
      in if edge \<and> x > 0 \<and> x < tw - 1 \<and> y > 0 \<and> y < th - 1
         then let idx = y * tw + x;
                  gx = sobelX lm tw idx;
                  gy = sobelY lm tw idx;
                  edgeMagnitude = fl (sqrt (fadd (fmul gx gx) (fmul gy gy)))
              in clamp01 (fsub luminance (fmul edgeMagnitude (lit (5/10))))
         else luminance)"

text \<open>The second pass (lines 330-356): the map is only read; the text grows by one cell
  at a time and by a line break after each row.\<close>

definition secondPass :: "real list \<Rightarrow> nat \<Rightarrow> nat \<Rightarrow> bool \<Rightarrow> string \<Rightarrow> string" where
  "secondPass lm tw th edge cs =
     fold (\<lambda>y ascii.
             fold (\<lambda>x ascii. appendChar ascii (luminanceToChar (displayLuminance lm tw th edge x y) cs))
               [0..<tw] ascii @ [CHR 0x0A])
       [0..<th] []"

definition canvasToASCII :: "canvas \<Rightarrow> options \<Rightarrow> error + ascii_result" where
  "canvasToASCII cv opts =
     (if \<not> has_context cv then Inl CannotGetContext
      else if canvas_width cv = 0 \<or> canvas_height cv = 0 then Inl IndexSizeError
      else
        let tw = targetWidth opts;
            th = targetHeight cv opts;
            cs = (case characterSet opts of None \<Rightarrow> CHARSET_STANDARD | Some s \<Rightarrow> s);
            ivt = (case invert opts of None \<Rightarrow> False | Some i \<Rightarrow> i);
            ctr = (case contrast opts of None \<Rightarrow> 1 | Some c \<Rightarrow> c);
            edge = (case edgeEnhance opts of None \<Rightarrow> False | Some e \<Rightarrow> e);
            luminanceMap = firstPass cv tw th ctr ivt
        in Inr \<lparr>ascii = secondPass luminanceMap tw th edge cs, width = tw, height = th\<rparr>)"

section \<open>The specification's formulas\<close>

text \<open>
  The height the specification derives from a width alone,
  \<^verbatim>\<open>floor(width * Sh / (Sw * CHAR_ASPECT))\<close>, as a function of the aspect constant.
\<close>

definition spec_height :: "real \<Rightarrow> nat \<Rightarrow> nat \<Rightarrow> nat \<Rightarrow> int" where
  "spec_height aspect sw sh w = \<lfloor>real w * real sh / (real sw * aspect)\<rfloor>"

text \<open>
  Edge enhancement as the specification words it, over the grid of raw first-pass values
  \<open>raw x y\<close>: the 3x3 Sobel kernels on the eight neighbours of an interior cell, and the
  raw value less half the gradient magnitude, clamped; a border cell keeps its raw value.
\<close>

definition spec_gx :: "(nat \<Rightarrow> nat \<Rightarrow> real) \<Rightarrow> nat \<Rightarrow> nat \<Rightarrow> real" where
  "spec_gx raw x y =
     fadd (fsub (fadd (fsub (fadd (- raw (x - 1) (y - 1)) (raw (x + 1) (y - 1)))
                            (fmul 2 (raw (x - 1) y)))
                      (fmul 2 (raw (x + 1) y)))
                (raw (x - 1) (y + 1)))
          (raw (x + 1) (y + 1))"

definition spec_gy :: "(nat \<Rightarrow> nat \<Rightarrow> real) \<Rightarrow> nat \<Rightarrow> nat \<Rightarrow> real" where
  "spec_gy raw x y =
     fadd (fadd (fadd (fsub (fsub (- raw (x - 1) (y - 1)) (fmul 2 (raw x (y - 1))))
                            (raw (x + 1) (y - 1)))
                      (raw (x - 1) (y + 1)))
                (fmul 2 (raw x (y + 1))))
          (raw (x + 1) (y + 1))"

definition interior :: "nat \<Rightarrow> nat \<Rightarrow> nat \<Rightarrow> nat \<Rightarrow> bool" where
  "interior tw th x y = (0 < x \<and> x + 1 < tw \<and> 0 < y \<and> y + 1 < th)"

definition spec_display :: "(nat \<Rightarrow> nat \<Rightarrow> real) \<Rightarrow> nat \<Rightarrow> nat \<Rightarrow> bool \<Rightarrow> nat \<Rightarrow> nat \<Rightarrow> real" where
  "spec_display raw tw th edge x y =
     (if edge \<and> interior tw th x y
      then clamp01 (fsub (raw x y)
             (fmul (fl (sqrt (fadd (fmul (spec_gx raw x y) (spec_gx raw x y))
                                   (fmul (spec_gy raw x y) (spec_gy raw x y)))))
                   (lit (5/10))))
      else raw x y)"

text \<open>The value the first pass of \<open>canvasToASCII cv opts\<close> stores for the cell \<open>(x, y)\<close>.\<close>

definition rawLuminance :: "canvas \<Rightarrow> options \<Rightarrow> nat \<Rightarrow> nat \<Rightarrow> real" where
  "rawLuminance cv opts x y =
     f32 (cellLuminance cv
            (fdiv (real (canvas_width cv)) (real (targetWidth opts)))
            (fdiv (real (canvas_height cv)) (real (targetHeight cv opts)))
            (case contrast opts of None \<Rightarrow> 1 | Some c \<Rightarrow> c)
            (case invert opts of None \<Rightarrow> False | Some i \<Rightarrow> i) x y)"

text \<open>The text of a grid of cells: each row's cells, then a line break.\<close>

definition gridText :: "nat \<Rightarrow> nat \<Rightarrow> (nat \<Rightarrow> nat \<Rightarrow> char option) \<Rightarrow> string" where
  "gridText tw th cell =
     concat (map (\<lambda>y. concat (map (\<lambda>x. charText (cell x y)) [0..<tw]) @ [CHR 0x0A]) [0..<th])"

section \<open>Concrete canvases and options\<close>

definition canvas10 :: canvas where
  "canvas10 = \<lparr>canvas_width = 10, canvas_height = 10, data = replicate 400 0, has_context = True\<rparr>"

definition width_only :: "nat \<Rightarrow> options" where
  "width_only w = \<lparr>opt_width = Some w, opt_height = None, characterSet = None, invert = None,
     maintainAspectRatio = None, contrast = None, edgeEnhance = None\<rparr>"

definition black1 :: canvas where
  "black1 = \<lparr>canvas_width = 1, canvas_height = 1, data = [0, 0, 0, 255], has_context = True\<rparr>"

definition empty_ramp_1x1 :: options where
  "empty_ramp_1x1 = \<lparr>opt_width = Some 1, opt_height = Some 1, characterSet = Some [], invert = None,
     maintainAspectRatio = None, contrast = None, edgeEnhance = None\<rparr>"

definition fully_transparent :: "canvas \<Rightarrow> bool" where
  "fully_transparent cv =
     (\<forall>i < canvas_width cv * canvas_height cv. data cv ! (4 * i + 3) = 0)"

definition transparent1 :: canvas where
  "transparent1 = \<lparr>canvas_width = 1, canvas_height = 1, data = [0, 0, 0, 0], has_context = True\<rparr>"

definition white20 :: canvas where
  "white20 = \<lparr>canvas_width = 1, canvas_height = 1, data = [255, 255, 255, 20], has_context = True\<rparr>"

definition transparent3 :: canvas where
  "transparent3 = \<lparr>canvas_width = 3, canvas_height = 3, data = replicate 36 0, has_context = True\<rparr>"

definition edge_3x3 :: options where
  "edge_3x3 = \<lparr>opt_width = Some 3, opt_height = Some 3, characterSet = None, invert = None,
     maintainAspectRatio = None, contrast = None, edgeEnhance = Some True\<rparr>"

definition half_contrast :: options where
  "half_contrast = \<lparr>opt_width = Some 1, opt_height = Some 1, characterSet = None, invert = None,
     maintainAspectRatio = None, contrast = Some (1/2), edgeEnhance = None\<rparr>"

definition inverted_cell :: options where
  "inverted_cell = \<lparr>opt_width = Some 1, opt_height = Some 1, characterSet = None,
     invert = Some True, maintainAspectRatio = None, contrast = None, edgeEnhance = None\<rparr>"

definition black51 :: canvas where
  "black51 = \<lparr>canvas_width = 1, canvas_height = 1, data = [0, 0, 0, 51], has_context = True\<rparr>"

definition one_cell :: options where
  "one_cell = \<lparr>opt_width = Some 1, opt_height = Some 1, characterSet = None, invert = None,
     maintainAspectRatio = None, contrast = None, edgeEnhance = None\<rparr>"

section \<open>GeometryBuilder.createASCIIPoints (src/core/geometryBuilder.ts)\<close>

text \<open>
  The two options \<^verbatim>\<open>createASCIIPoints\<close> reads, and the geometry it builds: the flat
  \<^verbatim>\<open>position\<close> and \<^verbatim>\<open>color\<close> attributes, three numbers per point, stored as binary32.
\<close>

record builder_options =
  depth :: "real option"
  asciiDensity :: "real option"

record point_cloud =
  position_attr :: "real list"
  color_attr :: "real list"

definition DEFAULT_DEPTH :: real where
  "DEFAULT_DEPTH = 10"

text \<open>
  \<^verbatim>\<open>for (let i = i0; i < n; i += step) body\<close>. The stride of the source is
  \<^verbatim>\<open>Math.max(1, ...)\<close> and never 0; the first branch only makes the function total.
\<close>

function for_stride :: "nat \<Rightarrow> nat \<Rightarrow> nat \<Rightarrow> (nat \<Rightarrow> 's \<Rightarrow> 's) \<Rightarrow> 's \<Rightarrow> 's" where
  "for_stride i n step body s =
     (if step = 0 then s
      else if i < n then for_stride (i + step) n step body (body i s)
      else s)"
  by pat_completeness auto
termination
  by (relation "measure (\<lambda>(i, n, step, body, s). n - i)") auto

declare for_stride.simps [simp del]

text \<open>\<^verbatim>\<open>Math.max(1, Math.floor(1 / asciiDensity))\<close> (line 253), for a density other than 0.\<close>

definition pointStep :: "real \<Rightarrow> nat" where
  "pointStep density = nat (max 1 \<lfloor>fdiv 1 density\<rfloor>)"

text \<open>The body of the inner loop (lines 257-278).\<close>

definition visitPixel :: "canvas \<Rightarrow> real \<Rightarrow> real \<Rightarrow> real \<Rightarrow> nat \<Rightarrow> nat
    \<Rightarrow> real list \<times> real list \<Rightarrow> real list \<times> real list" where
  "visitPixel cv dpt centerX centerY y x acc =
     (case acc of (positions, colors) \<Rightarrow>
        let idx = (y * canvas_width cv + x) * 4;
            r = unat (data cv ! idx);
            g = unat (data cv ! (idx + 1));
            b = unat (data cv ! (idx + 2));
            a = unat (data cv ! (idx + 3))
        in if a > 128
           then let luminance = fdiv (weightedRGB (real r) (real g) (real b)) 255;
                    z = fmul luminance dpt
                in (positions @ [fmul (fsub (real x) centerX) (lit (1/10)),
                                 fmul (- fsub (real y) centerY) (lit (1/10)),
                                 z],
                    colors @ [fdiv (real r) 255, fdiv (real g) 255, fdiv (real b) 255])
           else (positions, colors))"

definition createASCIIPoints :: "canvas \<Rightarrow> builder_options \<Rightarrow> error + point_cloud" where
  "createASCIIPoints cv opts =
     (if \<not> has_context cv then Inl CannotGetContext
      else if canvas_width cv = 0 \<or> canvas_height cv = 0 then Inl IndexSizeError
      else
        let dpt = (case depth opts of None \<Rightarrow> DEFAULT_DEPTH | Some d \<Rightarrow> d);
            density = (case asciiDensity opts of None \<Rightarrow> lit (6/10) | Some d \<Rightarrow> d);
            centerX = fdiv (real (canvas_width cv)) 2;
            centerY = fdiv (real (canvas_height cv)) 2;
            step = pointStep density
        in case for_stride 0 (canvas_height cv) step
                  (\<lambda>y. for_stride 0 (canvas_width cv) step (visitPixel cv dpt centerX centerY y))
                  ([], [])
           of (positions, colors) \<Rightarrow>
                Inr \<lparr>position_attr = map f32 positions, color_attr = map f32 colors\<rparr>)"

text \<open>
  Point-cloud sampling as the specification words it: the coordinates visited at a stride,
  the visible pixels among them in scan order, and the position and colour of the point of
  a pixel.
\<close>

definition strided :: "nat \<Rightarrow> nat \<Rightarrow> nat list" where
  "strided step n = map (\<lambda>k. k * step) [0..<(n + step - 1) div step]"

definition channel :: "canvas \<Rightarrow> nat \<Rightarrow> nat \<Rightarrow> nat \<Rightarrow> nat" where
  "channel cv c x y = unat (data cv ! ((y * canvas_width cv + x) * 4 + c))"

definition visiblePixels :: "canvas \<Rightarrow> nat \<Rightarrow> (nat \<times> nat) list" where
  "visiblePixels cv step =
     concat (map (\<lambda>y. map (\<lambda>x. (x, y))
                         (filter (\<lambda>x. 128 < channel cv 3 x y) (strided step (canvas_width cv))))
               (strided step (canvas_height cv)))"

definition pointPosition :: "canvas \<Rightarrow> real \<Rightarrow> nat \<times> nat \<Rightarrow> real list" where
  "pointPosition cv dpt p =
     (case p of (x, y) \<Rightarrow>
        [fmul (fsub (real x) (fdiv (real (canvas_width cv)) 2)) (lit (1/10)),
         fmul (- fsub (real y) (fdiv (real (canvas_height cv)) 2)) (lit (1/10)),
         fmul (fdiv (weightedRGB (real (channel cv 0 x y)) (real (channel cv 1 x y))
                                 (real (channel cv 2 x y))) 255) dpt])"

definition pointColor :: "canvas \<Rightarrow> nat \<times> nat \<Rightarrow> real list" where
  "pointColor cv p =
     (case p of (x, y) \<Rightarrow>
        [fdiv (real (channel cv 0 x y)) 255, fdiv (real (channel cv 1 x y)) 255,
         fdiv (real (channel cv 2 x y)) 255])"

definition fully_opaque :: "canvas \<Rightarrow> bool" where
  "fully_opaque cv =
     (\<forall>x < canvas_width cv. \<forall>y < canvas_height cv. channel cv 3 x y = 255)"

definition opaque2x2 :: canvas where
  "opaque2x2 = \<lparr>canvas_width = 2, canvas_height = 2,
     data = [255, 0, 0, 255,  0, 255, 0, 255,  0, 0, 255, 255,  255, 255, 255, 255],
     has_context = True\<rparr>"

definition density_opts :: "real \<Rightarrow> builder_options" where
  "density_opts d = \<lparr>depth = None, asciiDensity = Some d\<rparr>"

section \<open>The ASCII3D component (src/components/Ascii3D.tsx)\<close>

text \<open>
  \<^verbatim>\<open>getCharWeight\<close> (lines 72-81): membership of the character in three fixed strings,
  tested in this order.
\<close>

definition heavyChars :: string where
  "heavyChars = ''@#%&WMB8''"

definition mediumChars :: string where
  "mediumChars = ''*+=XO0QD''"

definition lightChars :: string where
  "lightChars = [CHR ''-'', CHR '':'', CHR ''.'', CHR '','', CHR 0x27, CHR 0x22, CHR 0x60, CHR ''^'']"

definition getCharWeight :: "char \<Rightarrow> real" where
  "getCharWeight c =
     (if c \<in> set heavyChars then 1
      else if c \<in> set mediumChars then lit (7/10)
      else if c \<in> set lightChars then lit (3/10)
      else lit (5/10))"

text \<open>Line 108: \<^verbatim>\<open>charDepth * (0.3 + weight * 0.7)\<close>.\<close>

definition actualDepth :: "real \<Rightarrow> real \<Rightarrow> real" where
  "actualDepth charDepth weight = fmul charDepth (fadd (lit (3/10)) (fmul weight (lit (7/10))))"

text \<open>
  \<^verbatim>\<open>toFixed(2)\<close> as a cache key. The string is a minus sign for a negative number and the
  digits of the integer nearest to \<open>\<bar>x\<bar> * 100\<close> (the larger one at a tie), so two keys are
  equal exactly when sign and integer are.
\<close>

type_synonym depth_key = "bool \<times> int"

definition toFixed2 :: "real \<Rightarrow> depth_key" where
  "toFixed2 x = (x < 0, \<lfloor>\<bar>x\<bar> * 100 + 1/2\<rfloor>)"

text \<open>
  The objects of the 3D library are modelled by a store: \<open>next_id\<close> numbers the objects
  as \<^verbatim>\<open>new\<close> creates them, \<open>boxes\<close> holds the size of each \<^verbatim>\<open>BoxGeometry\<close>, \<open>materials\<close> the
  texture of each \<^verbatim>\<open>MeshStandardMaterial\<close>, \<open>textures\<close> the glyph drawn on each
  \<^verbatim>\<open>CanvasTexture\<close>, and \<open>disposed\<close> the objects whose \<^verbatim>\<open>dispose()\<close> has been called. The
  refs of the component live as long as the component: \<open>materialCache\<close> is
  \<^verbatim>\<open>materialCacheRef.current\<close> (line 60), \<open>groupRef\<close> and \<open>rendererRef\<close> the refs of the same
  names. \<open>context2d\<close> says whether a fresh canvas yields a 2D context.
\<close>

record mesh =
  mesh_geometry :: nat
  mesh_material :: nat
  mesh_position :: "real \<times> real \<times> real"

record component =
  next_id :: nat
  boxes :: "nat \<rightharpoonup> real \<times> real \<times> real"
  materials :: "nat \<rightharpoonup> nat"
  textures :: "nat \<rightharpoonup> char"
  disposed :: "nat set"
  materialCache :: "char \<rightharpoonup> nat"
  groupRef :: "mesh list option"
  rendererRef :: "nat option"
  context2d :: bool

text \<open>\<^verbatim>\<open>asciiText.split('\n')\<close>\<close>

fun split_nl :: "string \<Rightarrow> string list" where
  "split_nl [] = [[]]"
| "split_nl (c # cs) =
     (if c = CHR 0x0A then [] # split_nl cs
      else (case split_nl cs of [] \<Rightarrow> [[c]] | l # ls \<Rightarrow> (c # l) # ls))"

text \<open>
  Lines 111-156: the material of a character, from the component's cache or newly made
  with its texture; \<open>None\<close> is the \<^verbatim>\<open>continue\<close> taken when no 2D context is available.
\<close>

definition materialFor :: "component \<Rightarrow> char \<Rightarrow> (nat \<times> component) option" where
  "materialFor st c =
     (case materialCache st c of
        Some material \<Rightarrow> Some (material, st)
      | None \<Rightarrow>
          if \<not> context2d st then None
          else let texture = next_id st;
                   material = next_id st + 1
               in Some (material,
                    st\<lparr>next_id := next_id st + 2,
                       textures := (textures st)(texture \<mapsto> c),
                       materials := (materials st)(material \<mapsto> texture),
                       materialCache := (materialCache st)(c \<mapsto> material)\<rparr>))"

text \<open>Lines 158-163: the box of a depth key, from the cache of this call or newly made.\<close>

definition geometryFor :: "component \<Rightarrow> (depth_key \<rightharpoonup> nat) \<Rightarrow> real
    \<Rightarrow> nat \<times> component \<times> (depth_key \<rightharpoonup> nat)" where
  "geometryFor st geometryCache dpt =
     (case geometryCache (toFixed2 dpt) of
        Some geometry \<Rightarrow> (geometry, st, geometryCache)
      | None \<Rightarrow>
          let geometry = next_id st
          in (geometry,
              st\<lparr>next_id := next_id st + 1,
                 boxes := (boxes st)(geometry \<mapsto> (fmul 1 (lit (88/100)),
                                                   fmul (lit (16/10)) (lit (88/100)), dpt))\<rparr>,
              geometryCache(toFixed2 dpt \<mapsto> geometry)))"

text \<open>The body of the character loop (lines 103-178).\<close>

definition placeChar :: "real \<Rightarrow> nat \<Rightarrow> string \<Rightarrow> nat \<Rightarrow> nat
    \<Rightarrow> component \<times> (depth_key \<rightharpoonup> nat) \<times> mesh list
    \<Rightarrow> component \<times> (depth_key \<rightharpoonup> nat) \<times> mesh list" where
  "placeChar charDepth nlines line lineIndex charIndex acc =
     (case acc of (st, geometryCache, meshes) \<Rightarrow>
        let c = line ! charIndex
        in if c = CHR '' '' then acc
           else
             let weight = getCharWeight c;
                 dpt = actualDepth charDepth weight
             in case materialFor st c of
                  None \<Rightarrow> acc
                | Some (material, st1) \<Rightarrow>
                    (case geometryFor st1 geometryCache dpt of
                       (geometry, st2, geometryCache2) \<Rightarrow>
                         (st2, geometryCache2,
                          meshes @ [\<lparr>mesh_geometry = geometry, mesh_material = material,
                                    mesh_position =
                                      (fmul (fsub (real charIndex) (fdiv (real (length line)) 2)) 1,
                                       fmul (fsub (fdiv (real nlines) 2) (real lineIndex)) (lit (16/10)),
                                       fmul (fmul (fsub weight (lit (5/10))) charDepth) (lit (2/10)))\<rparr>])))"

text \<open>
  \<^verbatim>\<open>createASCIIText3D\<close> (lines 84-182): the non-empty lines of the text, a geometry cache
  that starts empty at every call, and one mesh per character other than a blank. The
  parameter \<^verbatim>\<open>asciiHeight\<close> is not read.
\<close>

definition createASCIIText3D :: "component \<Rightarrow> string \<Rightarrow> nat \<Rightarrow> real \<Rightarrow> mesh list \<times> component" where
  "createASCIIText3D st asciiText asciiHeight charDepth =
     (let lines = filter (\<lambda>line. length line > 0) (split_nl asciiText)
      in case fold (\<lambda>lineIndex acc.
                      fold (placeChar charDepth (length lines) (lines ! lineIndex) lineIndex)
                        [0..<length (lines ! lineIndex)] acc)
                [0..<length lines] (st, Map.empty, [])
         of (st', geometryCache, meshes) \<Rightarrow> (meshes, st'))"

text \<open>Lines 287-295 of the effect: the group is built and kept in \<open>groupRef\<close>.\<close>

definition attachGroup :: "component \<Rightarrow> string \<Rightarrow> nat \<Rightarrow> real \<Rightarrow> component" where
  "attachGroup st asciiText asciiHeight charDepth =
     (case createASCIIText3D st asciiText asciiHeight charDepth of
        (meshes, st') \<Rightarrow> st'\<lparr>groupRef := Some meshes\<rparr>)"

text \<open>
  The cleanup of the effect (lines 332-359): the renderer is disposed, the geometry of
  every mesh of the group is disposed, and the refs are cleared. The material cache is not
  touched.
\<close>

definition cleanup :: "component \<Rightarrow> component" where
  "cleanup st =
     st\<lparr>disposed := disposed st
          \<union> (case rendererRef st of None \<Rightarrow> {} | Some renderer \<Rightarrow> {renderer})
          \<union> (case groupRef st of None \<Rightarrow> {} | Some meshes \<Rightarrow> mesh_geometry ` set meshes),
        groupRef := None, rendererRef := None\<rparr>"

text \<open>The characters of a text that get a mesh, in the order of the loops.\<close>

definition glyphs :: "string \<Rightarrow> string" where
  "glyphs asciiText =
     filter (\<lambda>c. c \<noteq> CHR '' '') (concat (filter (\<lambda>line. length line > 0) (split_nl asciiText)))"

definition boxDepth :: "component \<Rightarrow> nat \<Rightarrow> real option" where
  "boxDepth st geometry = map_option (\<lambda>b. snd (snd b)) (boxes st geometry)"

definition fresh_component :: component where
  "fresh_component = \<lparr>next_id = 0, boxes = Map.empty, materials = Map.empty, textures = Map.empty,
     disposed = {}, materialCache = Map.empty, groupRef = None, rendererRef = None,
     context2d = True\<rparr>"

section \<open>Invariants of a group under construction\<close>

text \<open>
  \<open>extends st st2\<close>: the store \<open>st2\<close> is \<open>st\<close> with more objects and cache entries, and the
  same refs. \<open>placed\<close>: a mesh carries the cached material of its character and a box made
  in this construction with a depth of the character's key. \<open>cache_ok\<close>: the geometry cache
  of the call holds boxes made in this construction under their own keys. \<open>building\<close>: the
  state of the loops after the characters \<open>gl\<close>.
\<close>

definition extends :: "component \<Rightarrow> component \<Rightarrow> bool" where
  "extends st st' =
     (next_id st \<le> next_id st' \<and> materialCache st \<subseteq>\<^sub>m materialCache st'
      \<and> (\<forall>g < next_id st. boxes st' g = boxes st g)
      \<and> disposed st' = disposed st \<and> groupRef st' = groupRef st
      \<and> rendererRef st' = rendererRef st \<and> context2d st' = context2d st)"

definition placed :: "component \<Rightarrow> real \<Rightarrow> component \<Rightarrow> char \<Rightarrow> mesh \<Rightarrow> bool" where
  "placed st0 d st c m =
     (materialCache st c = Some (mesh_material m)
      \<and> next_id st0 \<le> mesh_geometry m \<and> mesh_geometry m < next_id st
      \<and> (\<exists>c'. boxDepth st (mesh_geometry m) = Some (actualDepth d (getCharWeight c'))
               \<and> toFixed2 (actualDepth d (getCharWeight c'))
                   = toFixed2 (actualDepth d (getCharWeight c))))"

definition cache_ok :: "component \<Rightarrow> real \<Rightarrow> component \<Rightarrow> (depth_key \<rightharpoonup> nat) \<Rightarrow> bool" where
  "cache_ok st0 d st gc =
     (\<forall>k g. gc k = Some g \<longrightarrow>
        next_id st0 \<le> g \<and> g < next_id st
        \<and> (\<exists>c'. boxDepth st g = Some (actualDepth d (getCharWeight c'))
                 \<and> toFixed2 (actualDepth d (getCharWeight c')) = k))"

definition building :: "component \<Rightarrow> real \<Rightarrow> string
    \<Rightarrow> component \<times> (depth_key \<rightharpoonup> nat) \<times> mesh list \<Rightarrow> bool" where
  "building st0 d gl acc =
     (case acc of (st, gc, ms) \<Rightarrow>
        extends st0 st \<and> cache_ok st0 d st gc \<and> list_all2 (placed st0 d st) gl ms)"

definition first_mount :: component where
  "first_mount = attachGroup fresh_component ''@'' 1 8"

definition remount :: component where
  "remount = attachGroup (cleanup first_mount) ''@'' 1 2"

section \<open>Facts about the rounding\<close>

lemma round_even_of_int: "round_even (of_int n) = n"
  by (simp add: round_even_def)

lemma round_even_near:
  assumes h: "\<bar>y - of_int n\<bar> < 1/2 \<or> \<bar>y - of_int n\<bar> = 1/2 \<and> even n"
  shows "round_even y = n"
proof (cases "of_int n \<le> y")
  case True
  with h have f: "\<lfloor>y\<rfloor> = n" by (intro floor_unique) linarith+
  from h True have "y - of_int n < 1/2 \<or> y - of_int n = 1/2 \<and> even n" by linarith
  then show ?thesis by (auto simp: round_even_def Let_def f)
next
  case False
  have f: "\<lfloor>y\<rfloor> = n - 1"
  proof (rule floor_unique)
    show "of_int (n - 1) \<le> y" using h False by (simp, linarith)
    show "y < of_int (n - 1) + 1" using False by simp
  qed
  from h False have "1/2 < y - of_int n + 1 \<or> y - of_int n + 1 = 1/2 \<and> even n" by linarith
  then show ?thesis by (auto simp: round_even_def Let_def f)
qed

lemma round_even_mono: "x \<le> y \<Longrightarrow> round_even x \<le> round_even y"
proof -
  assume xy: "x \<le> y"
  have fxy: "\<lfloor>x\<rfloor> \<le> \<lfloor>y\<rfloor>" using xy by (rule floor_mono)
  have lo: "\<And>z. \<lfloor>z\<rfloor> \<le> round_even z" by (simp add: round_even_def Let_def)
  have hi: "\<And>z. round_even z \<le> \<lfloor>z\<rfloor> + 1" by (simp add: round_even_def Let_def)
  show ?thesis
  proof (cases "\<lfloor>x\<rfloor> = \<lfloor>y\<rfloor>")
    case True
    with xy show ?thesis by (simp add: round_even_def Let_def)
  next
    case False
    with fxy have "\<lfloor>x\<rfloor> + 1 \<le> \<lfloor>y\<rfloor>" by simp
    with lo[of y] hi[of x] show ?thesis by linarith
  qed
qed

lemma round_even_uminus: "round_even (- x) = - round_even x"
proof (cases "x = of_int \<lfloor>x\<rfloor>")
  case True
  then obtain n where "x = of_int n" ..
  then show ?thesis by (simp add: round_even_of_int flip: of_int_minus)
next
  case False
  then have c: "\<lceil>x\<rceil> = \<lfloor>x\<rfloor> + 1" by (simp add: ceiling_altdef)
  have f: "\<lfloor>- x\<rfloor> = - \<lfloor>x\<rfloor> - 1" by (simp add: floor_minus c)
  show ?thesis
    unfolding round_even_def Let_def f by auto
qed

lemma round_even_nonneg: "0 \<le> x \<Longrightarrow> 0 \<le> round_even x"
  using round_even_mono[of 0 x] round_even_of_int[of 0] by simp

lemma two_powi_mono: "a \<le> b \<Longrightarrow> (2::real) powi a \<le> 2 powi b"
  by (rule power_int_increasing) simp_all

lemma two_powi_less_D: "(2::real) powi a < 2 powi b \<Longrightarrow> a < b"
  using two_powi_mono[of b a] by (cases "a < b") simp_all

lemma int_pow2_le_real: "(2::int) ^ k \<le> n \<Longrightarrow> (2::real) ^ k \<le> of_int n"
proof -
  assume "(2::int) ^ k \<le> n"
  then have "real_of_int (2 ^ k) \<le> of_int n" by (simp only: of_int_le_iff)
  then show ?thesis by simp
qed

lemma int_less_pow2_real: "n < (2::int) ^ k \<Longrightarrow> of_int n + 1 \<le> (2::real) ^ k"
proof -
  assume "n < (2::int) ^ k"
  then have "n + 1 \<le> 2 ^ k" by simp
  then have "real_of_int (n + 1) \<le> of_int (2 ^ k)" by (simp only: of_int_le_iff)
  then show ?thesis by simp
qed

lemma flog2_bounds:
  assumes "0 < x"
  shows "2 powi (flog2 x) \<le> x \<and> x < 2 powi (flog2 x + 1)"
proof (cases "1 \<le> x")
  case True
  define n where "n = \<lfloor>x\<rfloor>"
  define k where "k = nat (bitlen n - 1)"
  have n1: "1 \<le> n" using True by (simp add: n_def)
  have b1: "1 \<le> bitlen n" using n1 bitlen_ge_iff_power[of 1 n] by simp
  have bk: "bitlen n = int k + 1" using b1 by (simp add: k_def)
  have e1: "nat (bitlen n - 1) = k" by (simp add: k_def)
  have e2: "nat (bitlen n) = Suc k" unfolding bk by simp
  have nb: "2 ^ k \<le> n \<and> n < 2 ^ Suc k"
    using bitlen_bounds[of n] n1 unfolding e1 e2 by simp
  have f: "flog2 x = int k" using True bk by (simp add: flog2_def n_def)
  have nx: "of_int n \<le> x \<and> x < of_int n + 1" by (simp add: n_def)
  have lo: "(2::real) ^ k \<le> x" using int_pow2_le_real[of k n] nb nx by linarith
  have hi: "x < (2::real) ^ Suc k" using int_less_pow2_real[of n "Suc k"] nb nx by linarith
  have p: "(2::real) powi (int k + 1) = 2 ^ Suc k"
    by (simp add: power_int_add power_int_of_nat)
  show ?thesis unfolding f p using lo hi by (simp add: power_int_of_nat)
next
  case False
  define y where "y = 1 / x"
  define m where "m = \<lceil>y\<rceil> - 1"
  define k where "k = nat (bitlen m - 1)"
  have y1: "1 < y" using False assms by (simp add: y_def)
  have my: "of_int m < y \<and> y \<le> of_int m + 1"
    unfolding m_def using ceiling_correct[of y] by simp
  have m1: "1 \<le> m"
  proof -
    have "(0::real) < of_int m" using my y1 by linarith
    then have "0 < m" by (simp only: of_int_0_less_iff)
    then show ?thesis by simp
  qed
  have b1: "1 \<le> bitlen m" using m1 bitlen_ge_iff_power[of 1 m] by simp
  have bk: "bitlen m = int k + 1" using b1 by (simp add: k_def)
  have e1: "nat (bitlen m - 1) = k" by (simp add: k_def)
  have e2: "nat (bitlen m) = Suc k" unfolding bk by simp
  have nb: "2 ^ k \<le> m \<and> m < 2 ^ Suc k"
    using bitlen_bounds[of m] m1 unfolding e1 e2 by simp
  have f: "flog2 x = - int (Suc k)" using False bk by (simp add: flog2_def m_def y_def)
  have ylo: "(2::real) ^ k < y" using int_pow2_le_real[of k m] nb my by linarith
  have yhi: "y \<le> (2::real) ^ Suc k" using int_less_pow2_real[of m "Suc k"] nb my by linarith
  have xy: "x = 1 / y" using assms by (simp add: y_def)
  have lo: "1 / (2::real) ^ Suc k \<le> x"
    unfolding xy using yhi y1 by (intro divide_left_mono) simp_all
  have hi: "x < 1 / (2::real) ^ k"
    unfolding xy using ylo y1 by (intro divide_strict_left_mono) simp_all
  have p1: "(2::real) powi (- int (Suc k)) = 1 / 2 ^ Suc k"
    by (simp only: power_int_minus power_int_of_nat inverse_eq_divide)
  have "- int (Suc k) + 1 = - int k" by simp
  then have p2: "(2::real) powi (- int (Suc k) + 1) = 1 / 2 ^ k"
    by (simp only: power_int_minus power_int_of_nat inverse_eq_divide)
  show ?thesis unfolding f p1 p2 using lo hi by simp
qed

lemma flog2_unique:
  assumes "2 powi k \<le> x" "x < 2 powi (k + 1)"
  shows "flog2 x = k"
proof -
  have x0: "0 < x" using assms(1) zero_less_power_int[of "2::real" k] by linarith
  note b = flog2_bounds[OF x0]
  have "(2::real) powi k < 2 powi (flog2 x + 1)" using assms(1) b by linarith
  then have 1: "k < flog2 x + 1" by (rule two_powi_less_D)
  have "(2::real) powi (flog2 x) < 2 powi (k + 1)" using assms(2) b by linarith
  then have 2: "flog2 x < k + 1" by (rule two_powi_less_D)
  show ?thesis using 1 2 by simp
qed

lemma flog2_mono:
  assumes "0 < x" "x \<le> y"
  shows "flog2 x \<le> flog2 y"
proof -
  have y0: "0 < y" using assms by simp
  have "(2::real) powi (flog2 x) < 2 powi (flog2 y + 1)"
    using flog2_bounds[OF assms(1)] flog2_bounds[OF y0] assms(2) by linarith
  then have "flog2 x < flog2 y + 1" by (rule two_powi_less_D)
  then show ?thesis by simp
qed


lemma two_powi_pos: "0 < (2::real) powi e"
  by (simp add: zero_less_power_int)

lemma two_powi_add: "(2::real) powi (a + b) = 2 powi a * 2 powi b"
  by (simp add: power_int_add)

lemma two_powi_diff: "(2::real) powi (a - b) = 2 powi a / 2 powi b"
  by (simp add: power_int_diff)

lemma round_fp_0: "round_fp p emin 0 = 0"
  by (simp add: round_fp_def)

lemma quantum_uminus: "quantum p emin (- x) = quantum p emin x"
  by (simp add: quantum_def)

lemma round_fp_uminus: "round_fp p emin (- x) = - round_fp p emin x"
  by (simp add: round_fp_def quantum_uminus round_even_uminus)

lemma round_fp_nonneg: "0 \<le> x \<Longrightarrow> 0 \<le> round_fp p emin x"
  by (simp add: round_fp_def round_even_nonneg two_powi_pos less_imp_le)

lemma round_fp_eval:
  assumes x0: "x \<noteq> 0" and e: "emin \<le> e"
    and lo: "2 powi (e + int p - 1) \<le> \<bar>x\<bar>" and hi: "\<bar>x\<bar> < 2 powi (e + int p)"
    and n: "\<bar>x / 2 powi e - of_int n\<bar> < 1/2
            \<or> \<bar>x / 2 powi e - of_int n\<bar> = 1/2 \<and> even n"
  shows "round_fp p emin x = of_int n * 2 powi e"
proof -
  have "flog2 \<bar>x\<bar> = e + int p - 1"
    using lo hi by (intro flog2_unique) simp_all
  then have q: "quantum p emin x = e" using e by (simp add: quantum_def)
  show ?thesis using x0 round_even_near[OF n] by (simp add: round_fp_def q)
qed

lemma round_fp_exact:
  assumes x: "x = of_int m * 2 powi e" and m: "\<bar>m\<bar> < 2 ^ p" and e: "emin \<le> e"
  shows "round_fp p emin x = x"
proof (cases "m = 0")
  case True
  then show ?thesis using x by (simp add: round_fp_0)
next
  case False
  define a where "a = real_of_int \<bar>m\<bar>"
  define k where "k = flog2 a"
  have a0: "0 < a" using False by (simp add: a_def)
  have ax: "\<bar>x\<bar> = a * 2 powi e"
    by (simp add: x a_def abs_mult two_powi_pos less_imp_le)
  have kb: "2 powi k \<le> a \<and> a < 2 powi (k + 1)"
    unfolding k_def by (rule flog2_bounds[OF a0])
  have "real_of_int \<bar>m\<bar> < of_int (2 ^ p)" using m by (simp only: of_int_less_iff)
  then have "a < 2 powi (int p)" by (simp add: a_def power_int_of_nat)
  with kb have "(2::real) powi k < 2 powi (int p)" by linarith
  then have kp: "k < int p" by (rule two_powi_less_D)
  have fx: "flog2 \<bar>x\<bar> = k + e"
  proof (rule flog2_unique)
    show "2 powi (k + e) \<le> \<bar>x\<bar>"
      unfolding ax two_powi_add using kb by (simp add: two_powi_pos)
    show "\<bar>x\<bar> < 2 powi (k + e + 1)"
    proof -
      have "a * 2 powi e < 2 powi (k + 1) * 2 powi e"
        using kb by (simp add: two_powi_pos)
      also have "\<dots> = 2 powi (k + e + 1)"
        by (simp add: two_powi_add)
      finally show ?thesis by (simp add: ax)
    qed
  qed
  define q where "q = quantum p emin x"
  have qe: "q \<le> e" using kp e by (simp add: q_def quantum_def fx)
  define d where "d = nat (e - q)"
  have ed: "e = q + int d" using qe by (simp add: d_def)
  have xq: "x / 2 powi q = of_int (m * 2 ^ d)"
    by (simp add: x ed two_powi_add power_int_of_nat)
  have x0: "x \<noteq> 0" using False x by simp
  have "round_fp p emin x = of_int (m * 2 ^ d) * 2 powi q"
    using x0 unfolding round_fp_def q_def[symmetric] xq round_even_of_int by simp
  also have "\<dots> = x" by (simp add: x ed two_powi_add power_int_of_nat)
  finally show ?thesis .
qed

lemma round_fp_of_int:
  assumes "\<bar>m\<bar> < 2 ^ p" "emin \<le> 0"
  shows "round_fp p emin (of_int m) = of_int m"
  using round_fp_exact[of "of_int m" m 0 p emin] assms by simp

lemma round_fp_mono_pos:
  assumes x0: "0 < x" and xy: "x \<le> y" and p0: "0 < p"
  shows "round_fp p emin x \<le> round_fp p emin y"
proof -
  have y0: "0 < y" using x0 xy by simp
  obtain r where pr: "p = Suc r" using p0 by (cases p) simp_all
  define qx where "qx = quantum p emin x"
  define qy where "qy = quantum p emin y"
  have fx: "flog2 x \<le> flog2 y" using x0 xy by (rule flog2_mono)
  have qxy: "qx \<le> qy" using fx x0 y0 by (simp add: qx_def qy_def quantum_def)
  have rx: "round_fp p emin x = of_int (round_even (x / 2 powi qx)) * 2 powi qx"
    using x0 by (simp add: round_fp_def qx_def)
  have ry: "round_fp p emin y = of_int (round_even (y / 2 powi qy)) * 2 powi qy"
    using y0 by (simp add: round_fp_def qy_def)
  show ?thesis
  proof (cases "qx = qy")
    case True
    have "x / 2 powi qy \<le> y / 2 powi qy"
      using xy by (simp add: divide_right_mono two_powi_pos less_imp_le)
    then have "round_even (x / 2 powi qy) \<le> round_even (y / 2 powi qy)"
      by (rule round_even_mono)
    then show ?thesis unfolding rx ry True by (simp add: two_powi_pos)
  next
    case False
    with qxy have lt: "qx + 1 \<le> qy" by simp
    have "emin \<le> qx" using x0 by (simp add: qx_def quantum_def)
    with lt have qyf: "qy = flog2 y - int r" using y0 by (simp add: qy_def quantum_def pr)
    have ylo: "2 powi (qy + int r) \<le> y"
      using flog2_bounds[OF y0] by (simp add: qyf)
    have "real_of_int (2 ^ r) \<le> y / 2 powi qy"
    proof -
      have "2 powi (qy + int r) / 2 powi qy \<le> y / 2 powi qy"
        using ylo by (simp add: divide_right_mono two_powi_pos less_imp_le)
      then show ?thesis by (simp add: two_powi_add power_int_of_nat)
    qed
    then have "round_even (of_int (2 ^ r)) \<le> round_even (y / 2 powi qy)"
      by (rule round_even_mono)
    then have ylow: "real_of_int (2 ^ r) \<le> of_int (round_even (y / 2 powi qy))"
      unfolding round_even_of_int by (simp only: of_int_le_iff)
    have xhi: "x < 2 powi (qx + int p)"
    proof -
      have "flog2 x + 1 \<le> qx + int p" using x0 by (simp add: qx_def quantum_def)
      then have "(2::real) powi (flog2 x + 1) \<le> 2 powi (qx + int p)" by (rule two_powi_mono)
      with flog2_bounds[OF x0] show ?thesis by linarith
    qed
    have "x / 2 powi qx \<le> of_int (2 ^ p)"
    proof -
      have "x / 2 powi qx \<le> 2 powi (qx + int p) / 2 powi qx"
        using xhi by (simp add: divide_right_mono two_powi_pos less_imp_le)
      then show ?thesis by (simp add: two_powi_add power_int_of_nat)
    qed
    then have "round_even (x / 2 powi qx) \<le> round_even (of_int (2 ^ p))"
      by (rule round_even_mono)
    then have xup: "real_of_int (round_even (x / 2 powi qx)) \<le> of_int (2 ^ p)"
      unfolding round_even_of_int by (simp only: of_int_le_iff)
    have "round_fp p emin x \<le> of_int (2 ^ p) * 2 powi qx"
      unfolding rx using xup by (simp add: two_powi_pos)
    also have "\<dots> = of_int (2 ^ r) * 2 powi (qx + 1)"
      by (simp add: pr two_powi_add)
    also have "\<dots> \<le> of_int (2 ^ r) * 2 powi qy"
      using two_powi_mono[OF lt] by (intro mult_left_mono) simp_all
    also have "\<dots> \<le> round_fp p emin y"
      unfolding ry using ylow by (simp add: two_powi_pos)
    finally show ?thesis .
  qed
qed

lemma round_fp_mono:
  assumes xy: "x \<le> y" and p0: "0 < p"
  shows "round_fp p emin x \<le> round_fp p emin y"
proof -
  consider "0 < x" | "x \<le> 0" "0 \<le> y" | "y < 0" by linarith
  then show ?thesis
  proof cases
    case 1
    then show ?thesis using xy p0 by (rule round_fp_mono_pos)
  next
    case 2
    have "round_fp p emin x \<le> 0"
      using round_fp_nonneg[of "- x" p emin] 2 by (simp add: round_fp_uminus)
    moreover have "0 \<le> round_fp p emin y" using 2 by (simp add: round_fp_nonneg)
    ultimately show ?thesis by linarith
  next
    case 3
    have "round_fp p emin (- y) \<le> round_fp p emin (- x)"
      using 3 xy p0 by (intro round_fp_mono_pos) simp_all
    then show ?thesis by (simp add: round_fp_uminus)
  qed
qed
lemma fl_0: "fl 0 = 0"
  by (simp add: fl_def round_fp_0)

lemma fl_mono: "x \<le> y \<Longrightarrow> fl x \<le> fl y"
  by (simp add: fl_def round_fp_mono)

lemma fl_uminus: "fl (- x) = - fl x"
  by (simp add: fl_def round_fp_uminus)

lemma fl_nonneg: "0 \<le> x \<Longrightarrow> 0 \<le> fl x"
  by (simp add: fl_def round_fp_nonneg)

lemma fl_of_int: "\<bar>m\<bar> < 2 ^ 53 \<Longrightarrow> fl (of_int m) = of_int m"
  unfolding fl_def by (rule round_fp_of_int) simp_all

lemma fl_of_nat: "n < 2 ^ 53 \<Longrightarrow> fl (of_nat n) = of_nat n"
  using fl_of_int[of "int n"] by simp

lemma fl_1: "fl 1 = 1"
  using fl_of_int[of 1] by simp

lemma fl_numeral: "(numeral n :: int) < 2 ^ 53 \<Longrightarrow> fl (numeral n) = numeral n"
  using fl_of_int[of "numeral n"] by simp

lemma fl_neg_numeral: "(numeral n :: int) < 2 ^ 53 \<Longrightarrow> fl (- numeral n) = - numeral n"
  by (simp add: fl_uminus fl_numeral)

lemma fl_dyadic: "\<bar>m\<bar> < 2 ^ 53 \<Longrightarrow> k \<le> 1074 \<Longrightarrow> fl (of_int m / 2 ^ k) = of_int m / 2 ^ k"
  unfolding fl_def
  by (rule round_fp_exact[where m = m and e = "- int k"])
     (simp_all add: power_int_minus power_int_of_nat field_simps)

lemma fl_eval:
  assumes k: "k \<le> 1074"
    and lo: "2 ^ 52 \<le> \<bar>x\<bar> * 2 ^ k" and hi: "\<bar>x\<bar> * 2 ^ k < 2 ^ 53"
    and n: "\<bar>x * 2 ^ k - of_int n\<bar> < 1/2 \<or> \<bar>x * 2 ^ k - of_int n\<bar> = 1/2 \<and> even n"
  shows "fl x = of_int n / 2 ^ k"
proof -
  have p: "(2::real) powi (- int k) = 1 / 2 ^ k"
    by (simp only: power_int_minus power_int_of_nat inverse_eq_divide)
  have x0: "x \<noteq> 0" using lo by auto
  have "fl x = of_int n * 2 powi (- int k)"
    unfolding fl_def
  proof (rule round_fp_eval[OF x0])
    show "- 1074 \<le> - int k" using k by simp
    have e1: "(2::real) powi (- int k + int 53 - 1) = 2 ^ 52 / 2 ^ k"
      by (simp add: power_int_add power_int_diff p)
    show "2 powi (- int k + int 53 - 1) \<le> \<bar>x\<bar>"
      unfolding e1 using lo by (simp only: pos_divide_le_eq zero_less_power zero_less_numeral)
    have e2: "(2::real) powi (- int k + int 53) = 2 ^ 53 / 2 ^ k"
      by (simp add: power_int_add power_int_diff p)
    show "\<bar>x\<bar> < 2 powi (- int k + int 53)"
      unfolding e2 using hi by (simp only: pos_less_divide_eq zero_less_power zero_less_numeral)
    show "\<bar>x / 2 powi (- int k) - of_int n\<bar> < 1/2
        \<or> \<bar>x / 2 powi (- int k) - of_int n\<bar> = 1/2 \<and> even n"
      using n unfolding p by simp
  qed
  then show ?thesis unfolding p by simp
qed

lemma f32_0: "f32 0 = 0"
  by (simp add: f32_def round_fp_0)

lemma f32_mono: "x \<le> y \<Longrightarrow> f32 x \<le> f32 y"
  by (simp add: f32_def round_fp_mono)

lemma f32_of_int: "\<bar>m\<bar> < 2 ^ 24 \<Longrightarrow> f32 (of_int m) = of_int m"
  unfolding f32_def by (rule round_fp_of_int) simp_all

lemma f32_1: "f32 1 = 1"
  using f32_of_int[of 1] by simp

lemma f32_dyadic: "\<bar>m\<bar> < 2 ^ 24 \<Longrightarrow> k \<le> 149 \<Longrightarrow> f32 (of_int m / 2 ^ k) = of_int m / 2 ^ k"
  unfolding f32_def
  by (rule round_fp_exact[where m = m and e = "- int k"])
     (simp_all add: power_int_minus power_int_of_nat field_simps)

lemma f32_unit: "0 \<le> x \<Longrightarrow> x \<le> 1 \<Longrightarrow> 0 \<le> f32 x \<and> f32 x \<le> 1"
  using f32_mono[of 0 x] f32_mono[of x 1] by (simp add: f32_0 f32_1)

lemma fl_eval_as:
  assumes "k \<le> 1074" "2 ^ 52 \<le> \<bar>x\<bar> * 2 ^ k" "\<bar>x\<bar> * 2 ^ k < 2 ^ 53"
    and "\<bar>x * 2 ^ k - of_int n\<bar> < 1/2 \<or> \<bar>x * 2 ^ k - of_int n\<bar> = 1/2 \<and> even n"
    and r: "r * 2 ^ k = of_int n"
  shows "fl x = r"
proof -
  have "r = of_int n / 2 ^ k" using r by (simp add: field_simps)
  then show ?thesis using fl_eval[OF assms(1-4)] by simp
qed

section \<open>The loops of the two passes\<close>

lemma fold_append_concat: "fold (\<lambda>x acc. acc @ h x) xs acc = acc @ concat (map h xs)"
  by (induction xs arbitrary: acc) simp_all

lemma secondPass_rows:
  "secondPass lm tw th edge cs =
     concat (map (\<lambda>y. concat (map (\<lambda>x. charText (luminanceToChar (displayLuminance lm tw th edge x y) cs))
                                [0..<tw]) @ [CHR 0x0A]) [0..<th])"
proof -
  have inner: "\<And>y acc. fold (\<lambda>x ascii. appendChar ascii (luminanceToChar (displayLuminance lm tw th edge x y) cs))
                  [0..<tw] acc
        = acc @ concat (map (\<lambda>x. charText (luminanceToChar (displayLuminance lm tw th edge x y) cs)) [0..<tw])"
    unfolding appendChar_def by (rule fold_append_concat)
  show ?thesis
    unfolding secondPass_def inner append_assoc
    using fold_append_concat[of "\<lambda>y. concat (map (\<lambda>x. charText (luminanceToChar (displayLuminance lm tw th edge x y) cs)) [0..<tw]) @ [CHR 0x0A]" "[0..<th]" "[]"]
    by simp
qed

lemma fill_row_length: "length (fold (\<lambda>x lm. lm[b + x := g x]) [0..<w] lm) = length lm"
  by (induction w) simp_all

lemma fill_row_nth:
  "i < length lm \<Longrightarrow>
   fold (\<lambda>x lm. lm[b + x := g x]) [0..<w] lm ! i =
     (if b \<le> i \<and> i < b + w then g (i - b) else lm ! i)"
proof (induction w)
  case 0
  then show ?case by auto
next
  case (Suc w)
  have len: "i < length (fold (\<lambda>x lm. lm[b + x := g x]) [0..<w] lm)"
    using Suc.prems by (simp add: fill_row_length)
  show ?case
  proof (cases "i = b + w")
    case True
    with len show ?thesis by simp
  next
    case False
    with len Suc show ?thesis by (simp add: nth_list_update)
  qed
qed

lemma fill_grid_length:
  "length (fold (\<lambda>y lm. fold (\<lambda>x lm. lm[y * tw + x := g x y]) [0..<tw] lm) [0..<h] lm) = length lm"
  by (induction h) (simp_all add: fill_row_length)

lemma fill_grid_nth:
  "i < length lm \<Longrightarrow>
   fold (\<lambda>y lm. fold (\<lambda>x lm. lm[y * tw + x := g x y]) [0..<tw] lm) [0..<h] lm ! i =
     (if i < h * tw then g (i mod tw) (i div tw) else lm ! i)"
proof (induction h)
  case 0
  then show ?case by simp
next
  case (Suc h)
  let ?prev = "fold (\<lambda>y lm. fold (\<lambda>x lm. lm[y * tw + x := g x y]) [0..<tw] lm) [0..<h] lm"
  have len: "i < length ?prev" using Suc.prems by (simp add: fill_grid_length)
  have step: "fold (\<lambda>y lm. fold (\<lambda>x lm. lm[y * tw + x := g x y]) [0..<tw] lm) [0..<Suc h] lm
      = fold (\<lambda>x lm. lm[h * tw + x := g x h]) [0..<tw] ?prev"
    by simp
  show ?case
  proof (cases "h * tw \<le> i \<and> i < h * tw + tw")
    case True
    then obtain r where r: "i = h * tw + r" "r < tw"
      by (metis le_Suc_ex nat_add_left_cancel_less)
    then have dm: "i div tw = h" "i mod tw = r" by simp_all
    have "i < Suc h * tw" using True by simp
    then show ?thesis
      unfolding step fill_row_nth[OF len] using True dm r by simp
  next
    case False
    then consider "i < h * tw" | "h * tw + tw \<le> i" by linarith
    then show ?thesis
    proof cases
      case 1
      then have "i < Suc h * tw" by simp
      with 1 False show ?thesis
        unfolding step fill_row_nth[OF len] using Suc.IH[OF Suc.prems] by simp
    next
      case 2
      then have "\<not> i < Suc h * tw" "\<not> i < h * tw" by simp_all
      with False show ?thesis
        unfolding step fill_row_nth[OF len] using Suc.IH[OF Suc.prems] by simp
    qed
  qed
qed

lemma firstPass_length: "length (firstPass cv tw th ctr ivt) = tw * th"
  by (simp add: firstPass_def Let_def fill_grid_length)

lemma firstPass_nth:
  assumes "x < tw" "y < th"
  shows "firstPass cv tw th ctr ivt ! (y * tw + x) =
         f32 (cellLuminance cv (fdiv (real (canvas_width cv)) (real tw))
                (fdiv (real (canvas_height cv)) (real th)) ctr ivt x y)"
proof -
  have "y * tw + x < th * tw"
  proof -
    have "y * tw + x < y * tw + tw" using assms by simp
    also have "\<dots> = Suc y * tw" by simp
    also have "\<dots> \<le> th * tw" using assms by (intro mult_le_mono1) simp
    finally show ?thesis .
  qed
  then show ?thesis using assms
    by (simp add: firstPass_def Let_def fill_grid_nth mult.commute)
qed

section \<open>Evaluations at concrete numbers\<close>

lemma lit_299: "lit (299 / 1000) = 5386305154335113 / 18014398509481984"
  using fl_eval_as[of 54 "299 / 1000" 5386305154335113 "5386305154335113 / 18014398509481984"] by (simp add: lit_def)

lemma lit_587: "lit (587 / 1000) = 2643612981266481 / 4503599627370496"
  using fl_eval_as[of 53 "587 / 1000" 5287225962532962 "2643612981266481 / 4503599627370496"] by (simp add: lit_def)

lemma lit_114: "lit (57 / 500) = 8214565720323785 / 72057594037927936"
  using fl_eval_as[of 56 "57 / 500" 8214565720323785 "8214565720323785 / 72057594037927936"] by (simp add: lit_def)

lemma white_r: "fmul (5386305154335113 / 18014398509481984) 255 = 5365264899825991 / 70368744177664"
  using fl_eval_as[of 46 "(5386305154335113 / 18014398509481984) * 255" 5365264899825991 "5365264899825991 / 70368744177664"] by (simp add: fmul_def)

lemma white_g: "fmul (2643612981266481 / 4503599627370496) 255 = 2633286368058409 / 17592186044416"
  using fl_eval_as[of 45 "(2643612981266481 / 4503599627370496) * 255" 5266572736116818 "2633286368058409 / 17592186044416"] by (simp add: fmul_def)

lemma white_b: "fmul (8214565720323785 / 72057594037927936) 255 = 4091238786489385 / 140737488355328"
  using fl_eval_as[of 48 "(8214565720323785 / 72057594037927936) * 255" 8182477572978770 "4091238786489385 / 140737488355328"] by (simp add: fmul_def)

lemma white_rg: "fadd (5365264899825991 / 70368744177664) (2633286368058409 / 17592186044416) = 3974602593014907 / 17592186044416"
  using fl_eval_as[of 45 "(5365264899825991 / 70368744177664) + (2633286368058409 / 17592186044416)" 7949205186029814 "3974602593014907 / 17592186044416"] by (simp add: fadd_def)

lemma white_rgb: "fadd (3974602593014907 / 17592186044416) (4091238786489385 / 140737488355328) = 255"
  using fl_eval_as[of 45 "(3974602593014907 / 17592186044416) + (4091238786489385 / 140737488355328)" 8972014882652160 "255"] by (simp add: fadd_def)

lemma alpha_20: "fdiv 20 255 = 1412894000743685 / 18014398509481984"
  using fl_eval_as[of 56 "20 / 255" 5651576002974740 "1412894000743685 / 18014398509481984"] by (simp add: fdiv_def)

lemma bug_scaled: "fmul 255 (1412894000743685 / 18014398509481984) = 20"
  using fl_eval_as[of 48 "255 * (1412894000743685 / 18014398509481984)" 5629499534213120 "20"] by (simp add: fmul_def)

lemma bug_one_minus_a: "fsub 1 (1412894000743685 / 18014398509481984) = 4150376127184575 / 4503599627370496"
  using fl_eval_as[of 53 "1 - (1412894000743685 / 18014398509481984)" 8300752254369150 "4150376127184575 / 4503599627370496"] by (simp add: fsub_def)

lemma bug_white_part: "fmul 255 (4150376127184575 / 4503599627370496) = 8268327440875521 / 35184372088832"
  using fl_eval_as[of 45 "255 * (4150376127184575 / 4503599627370496)" 8268327440875521 "8268327440875521 / 35184372088832"] by (simp add: fmul_def)

lemma bug_composite: "fadd 20 (8268327440875521 / 35184372088832) = 8972014882652161 / 35184372088832"
  using fl_eval_as[of 45 "20 + (8268327440875521 / 35184372088832)" 8972014882652161 "8972014882652161 / 35184372088832"] by (simp add: fadd_def)

lemma bug_normalised: "fdiv (8972014882652161 / 35184372088832) 255 = 4503599627370497 / 4503599627370496"
  using fl_eval_as[of 52 "(8972014882652161 / 35184372088832) / 255" 4503599627370497 "4503599627370497 / 4503599627370496"] by (simp add: fdiv_def)

lemma weightedRGB_white: "weightedRGB 255 255 255 = 255"
  by (simp add: weightedRGB_def lit_299 lit_587 lit_114 white_r white_g white_b white_rg white_rgb)

section \<open>The text of a conversion\<close>

lemma secondPass_gridText:
  "secondPass lm tw th edge cs =
     gridText tw th (\<lambda>x y. luminanceToChar (displayLuminance lm tw th edge x y) cs)"
  by (simp add: secondPass_rows gridText_def)

lemma gridText_cong:
  "(\<And>x y. x < tw \<Longrightarrow> y < th \<Longrightarrow> f x y = g x y) \<Longrightarrow> gridText tw th f = gridText tw th g"
  unfolding gridText_def
  by (intro arg_cong[where f = concat] map_cong refl arg_cong2[where f = append]) simp_all

lemma gridText_const:
  "gridText tw th (\<lambda>x y. c) = concat (replicate th (concat (replicate tw (charText c)) @ [CHR 0x0A]))"
  by (simp add: gridText_def map_replicate_const)

lemma canvasToASCII_ok:
  assumes "has_context cv" "0 < canvas_width cv" "0 < canvas_height cv"
  shows "canvasToASCII cv opts =
     Inr \<lparr>ascii = gridText (targetWidth opts) (targetHeight cv opts)
                    (\<lambda>x y. luminanceToChar
                       (displayLuminance
                          (firstPass cv (targetWidth opts) (targetHeight cv opts)
                             (case contrast opts of None \<Rightarrow> 1 | Some c \<Rightarrow> c)
                             (case invert opts of None \<Rightarrow> False | Some i \<Rightarrow> i))
                          (targetWidth opts) (targetHeight cv opts)
                          (case edgeEnhance opts of None \<Rightarrow> False | Some e \<Rightarrow> e) x y)
                       (case characterSet opts of None \<Rightarrow> CHARSET_STANDARD | Some s \<Rightarrow> s)),
          width = targetWidth opts, height = targetHeight cv opts\<rparr>"
  using assms by (simp add: canvasToASCII_def Let_def secondPass_gridText)

section \<open>The character mapper\<close>

lemma rampIndex_nonneg:
  assumes "0 \<le> l" "1 \<le> length cs"
  shows "0 \<le> rampIndex l cs"
proof -
  have "0 \<le> l * of_int (int (length cs) - 1)" using assms by simp
  then have "0 \<le> fmul l (of_int (int (length cs) - 1))"
    unfolding fmul_def by (rule fl_nonneg)
  then have a: "0 \<le> \<lfloor>fmul l (of_int (int (length cs) - 1))\<rfloor>"
    by (simp only: zero_le_floor)
  have b: "0 \<le> int (length cs) - 1" using assms(2) by linarith
  show ?thesis unfolding rampIndex_def Let_def using a b by (rule min.boundedI)
qed

lemma rampIndex_less: "1 \<le> length cs \<Longrightarrow> rampIndex l cs < int (length cs)"
  by (simp add: rampIndex_def Let_def min_def)

lemma luminanceToChar_Some:
  assumes "0 \<le> l" "1 \<le> length cs"
  shows "luminanceToChar l cs = Some (cs ! nat (rampIndex l cs))"
  using rampIndex_nonneg[OF assms] rampIndex_less[OF assms(2)]
  by (simp add: luminanceToChar_def charAt_def)

lemma rampIndex_0: "1 \<le> length cs \<Longrightarrow> rampIndex 0 cs = 0"
  by (simp add: rampIndex_def Let_def fmul_def fl_0)

lemma rampIndex_1:
  assumes "1 \<le> length cs" "length cs < 2 ^ 53"
  shows "rampIndex 1 cs = int (length cs) - 1"
proof -
  have "\<bar>int (length cs) - 1\<bar> < 2 ^ 53" using assms by simp
  then have "fl (of_int (int (length cs) - 1)) = of_int (int (length cs) - 1)"
    by (rule fl_of_int)
  then show ?thesis by (simp add: rampIndex_def Let_def fmul_def)
qed

lemma luminanceToChar_1:
  assumes "cs \<noteq> []" "length cs < 2 ^ 53"
  shows "luminanceToChar 1 cs = Some (last cs)"
proof -
  have l1: "1 \<le> length cs" using assms(1) by (cases cs) simp_all
  have "nat (int (length cs) - 1) = length cs - 1" by simp
  then show ?thesis
    using luminanceToChar_Some[of 1 cs] l1 rampIndex_1[OF l1 assms(2)] assms(1)
    by (simp add: last_conv_nth)
qed

lemma fl_half: "fl (1/2) = 1/2"
  using fl_dyadic[of 1 1] by simp

text \<open>
  Claim C7. For a luminance in \<open>[0, 1]\<close> and a ramp of at least two characters,
  \<open>luminanceToChar\<close> returns the ramp's character at
  \<open>min (floor (luminance * (length - 1))) (length - 1)\<close>, the product being the binary64
  product of the code; this index is not negative; luminance 0 gives the character at
  index 0 and luminance 1 the character at the last index. (A string of the program has
  fewer than \<open>2 ^ 53\<close> characters.)
\<close>

theorem luminanceToChar_contract:
  assumes "0 \<le> l" "l \<le> 1" "2 \<le> length cs" "length cs < 2 ^ 53"
  shows "luminanceToChar l cs =
           Some (cs ! nat (min \<lfloor>fmul l (of_int (int (length cs) - 1))\<rfloor> (int (length cs) - 1)))
         \<and> 0 \<le> min \<lfloor>fmul l (of_int (int (length cs) - 1))\<rfloor> (int (length cs) - 1)
         \<and> luminanceToChar 0 cs = Some (cs ! 0)
         \<and> luminanceToChar 1 cs = Some (cs ! (length cs - 1))"
proof -
  have l1: "1 \<le> length cs" using assms(3) by simp
  have ne: "cs \<noteq> []" using assms(3) by auto
  have a: "luminanceToChar l cs = Some (cs ! nat (rampIndex l cs))"
    using assms(1) l1 by (rule luminanceToChar_Some)
  have b: "0 \<le> rampIndex l cs" using assms(1) l1 by (rule rampIndex_nonneg)
  have c: "luminanceToChar 0 cs = Some (cs ! 0)"
    using luminanceToChar_Some[of 0 cs] l1 by (simp add: rampIndex_0)
  have d: "luminanceToChar 1 cs = Some (cs ! (length cs - 1))"
    using luminanceToChar_1[OF ne assms(4)] ne by (simp add: last_conv_nth)
  show ?thesis using a b c d by (simp add: rampIndex_def Let_def)
qed

theorem luminanceToChar_contract_witness:
  "(0::real) \<le> 1/2 \<and> (1/2::real) \<le> 1 \<and> 2 \<le> length ''@# '' \<and> length ''@# '' < 2 ^ 53
   \<and> luminanceToChar (1/2) ''@# '' = Some (CHR ''#'')
   \<and> luminanceToChar 0 ''@# '' = Some (CHR ''@'')
   \<and> luminanceToChar 1 ''@# '' = Some (CHR '' '')"
  using luminanceToChar_contract[of "1/2" "''@# ''"]
  by (simp add: fmul_def fl_1)

text \<open>
  Claim C9. For every ramp, the index \<open>luminanceToChar\<close> reads is monotone in the
  luminance on \<open>[0, 1]\<close>: a larger luminance never gets a smaller index.
\<close>

theorem rampIndex_monotone:
  assumes "0 \<le> l1" "l1 \<le> l2" "l2 \<le> 1"
  shows "rampIndex l1 cs \<le> rampIndex l2 cs"
proof (cases "cs = []")
  case True
  have "\<And>l. 0 \<le> l \<Longrightarrow> l \<le> 1 \<Longrightarrow> rampIndex l [] = - 1"
  proof -
    fix l :: real assume l: "0 \<le> l" "l \<le> 1"
    have "fl (- 1) \<le> fl (- l)" using l by (intro fl_mono) simp
    then have "- 1 \<le> fl (- l)" by (simp add: fl_uminus fl_1)
    then have "- 1 \<le> \<lfloor>fl (- l)\<rfloor>" by (simp add: le_floor_iff)
    then show "rampIndex l [] = - 1" by (simp add: rampIndex_def Let_def fmul_def)
  qed
  then show ?thesis using assms True by simp
next
  case False
  then have k: "(0::real) \<le> of_int (int (length cs) - 1)" by (cases cs) simp_all
  have "l1 * of_int (int (length cs) - 1) \<le> l2 * of_int (int (length cs) - 1)"
    using assms(2) k by (rule mult_right_mono)
  then have "fmul l1 (of_int (int (length cs) - 1)) \<le> fmul l2 (of_int (int (length cs) - 1))"
    unfolding fmul_def by (rule fl_mono)
  then have "\<lfloor>fmul l1 (of_int (int (length cs) - 1))\<rfloor> \<le> \<lfloor>fmul l2 (of_int (int (length cs) - 1))\<rfloor>"
    by (rule floor_mono)
  then show ?thesis unfolding rampIndex_def Let_def by (intro min.mono order_refl)
qed

theorem rampIndex_monotone_witness:
  "(0::real) \<le> 1/4 \<and> (1/4::real) \<le> 1/2 \<and> (1/2::real) \<le> 1
   \<and> rampIndex (1/4) CHARSET_STANDARD \<le> rampIndex (1/2) CHARSET_STANDARD"
  using rampIndex_monotone[of "1/4" "1/2" CHARSET_STANDARD] by simp

section \<open>The conversion: dimensions, ramps, transparency, edges\<close>

lemma targetHeight_width_only:
  assumes "opt_width opts = Some w" "opt_height opts = None" "maintainAspectRatio opts \<noteq> Some False"
  shows "targetWidth opts = w"
    and "targetHeight cv opts =
           (if (w * canvas_height cv) div (canvas_width cv * 2) = 0 then w div 2
            else (w * canvas_height cv) div (canvas_width cv * 2))"
  using assms by (auto simp: targetWidth_def targetHeight_def Let_def split: option.splits)

text \<open>
  Claim C1, as amended. With a width \<open>w\<close> alone (no height, aspect ratio maintained) the
  conversion of an \<open>Sw x Sh\<close> canvas succeeds with width \<open>w\<close> and height
  \<open>floor (w * Sh / (Sw * 2))\<close>, or \<open>floor (w / 2)\<close> when that quotient is 0; for a square
  canvas the height is \<open>floor (w / 2)\<close>. The divisor is \<open>Sw * 2\<close>; the constant
  \<open>CHAR_ASPECT_RATIO\<close> is not used.
\<close>

theorem height_from_width:
  assumes "has_context cv" "0 < canvas_width cv" "0 < canvas_height cv"
    and "opt_width opts = Some w" "opt_height opts = None"
    and "maintainAspectRatio opts \<noteq> Some False"
  shows "(case canvasToASCII cv opts of
            Inl e \<Rightarrow> False
          | Inr r \<Rightarrow>
              width r = w
              \<and> height r = (if (w * canvas_height cv) div (canvas_width cv * 2) = 0 then w div 2
                            else (w * canvas_height cv) div (canvas_width cv * 2))
              \<and> (canvas_width cv = canvas_height cv \<longrightarrow> height r = w div 2))"
proof -
  have sq: "canvas_width cv = canvas_height cv \<Longrightarrow>
      (w * canvas_height cv) div (canvas_width cv * 2) = w div 2"
    using assms(2) by (simp add: div_mult2_eq[symmetric] mult.commute)
  show ?thesis
    using assms(1-3) sq
    by (simp add: canvasToASCII_ok targetHeight_width_only[OF assms(4-6)])
qed

text \<open>A 10 x 10 canvas at width 80 gets 40 rows.\<close>

theorem height_from_width_witness:
  "has_context canvas10 \<and> 0 < canvas_width canvas10 \<and> 0 < canvas_height canvas10
   \<and> opt_width (width_only 80) = Some 80 \<and> opt_height (width_only 80) = None
   \<and> maintainAspectRatio (width_only 80) \<noteq> Some False
   \<and> (case canvasToASCII canvas10 (width_only 80) of
         Inl e \<Rightarrow> False | Inr r \<Rightarrow> width r = 80 \<and> height r = 40)"
  using height_from_width[of canvas10 "width_only 80" 80]
  by (simp add: canvas10_def width_only_def split: sum.splits)

text \<open>
  The claim as stated fails: for the 10 x 10 canvas and width 80 no aspect constant in
  \<open>[0.5, 0.55]\<close> makes \<open>floor (w * Sh / (Sw * c))\<close> the height the code returns.
\<close>

theorem height_formula_counterexample:
  "\<not> (\<exists>c. 1/2 \<le> c \<and> c \<le> 55/100 \<and>
         map_sum id (\<lambda>r. int (height r)) (canvasToASCII canvas10 (width_only 80))
           = Inr (spec_height c 10 10 80))"
proof
  assume "\<exists>c. 1/2 \<le> c \<and> c \<le> 55/100 \<and>
         map_sum id (\<lambda>r. int (height r)) (canvasToASCII canvas10 (width_only 80))
           = Inr (spec_height c 10 10 80)"
  then obtain c :: real where c: "1/2 \<le> c" "c \<le> 55/100"
    and h: "map_sum id (\<lambda>r. int (height r)) (canvasToASCII canvas10 (width_only 80))
           = Inr (spec_height c 10 10 80)" by blast
  have "map_sum id (\<lambda>r. int (height r)) (canvasToASCII canvas10 (width_only 80)) = Inr 40"
    by (simp add: canvasToASCII_ok canvas10_def width_only_def targetHeight_def targetWidth_def)
  with h have "spec_height c 10 10 80 = 40" by simp
  then have "\<lfloor>80 / c\<rfloor> = 40" using c by (simp add: spec_height_def)
  then have "80 / c < 41" by linarith
  then have "80 < 41 * c" using c by (simp add: pos_divide_less_eq)
  then show False using c by linarith
qed

lemma luminanceToChar_empty: "luminanceToChar l [] = None"
  by (simp add: luminanceToChar_def charAt_def)

lemma canvasToASCII_empty_ramp:
  assumes "characterSet opts = Some []"
  shows "canvasToASCII cv opts =
     (if \<not> has_context cv then Inl CannotGetContext
      else if canvas_width cv = 0 \<or> canvas_height cv = 0 then Inl IndexSizeError
      else Inr \<lparr>ascii = concat (replicate (targetHeight cv opts)
                           (concat (replicate (targetWidth opts) ''undefined'') @ [CHR 0x0A])),
                width = targetWidth opts, height = targetHeight cv opts\<rparr>)"
proof -
  have "canvas_width cv \<noteq> 0 \<Longrightarrow> canvas_height cv \<noteq> 0 \<Longrightarrow> has_context cv \<Longrightarrow> ?thesis"
    using gridText_const[of "targetWidth opts" "targetHeight cv opts" None]
    by (simp add: canvasToASCII_ok assms luminanceToChar_empty charText_def)
  then show ?thesis by (auto simp: canvasToASCII_def)
qed

text \<open>
  Claim C2, as amended. The conversion does not validate the ramp. With the empty string
  as ramp it fails only where it fails for every ramp, with the same error (no 2D context,
  a canvas with a zero side); on every other canvas it returns a result of the target
  width and height.
\<close>

theorem empty_ramp_not_rejected:
  assumes "characterSet opts = Some []"
  shows "(case canvasToASCII cv opts of
            Inl e \<Rightarrow>
              (\<not> has_context cv \<or> canvas_width cv = 0 \<or> canvas_height cv = 0)
              \<and> (\<forall>cs. canvasToASCII cv (opts\<lparr>characterSet := cs\<rparr>) = Inl e)
          | Inr r \<Rightarrow>
              has_context cv \<and> 0 < canvas_width cv \<and> 0 < canvas_height cv
              \<and> width r = targetWidth opts \<and> height r = targetHeight cv opts)"
proof (cases "has_context cv \<and> 0 < canvas_width cv \<and> 0 < canvas_height cv")
  case True
  then show ?thesis by (simp add: canvasToASCII_ok)
next
  case False
  then show ?thesis by (auto simp: canvasToASCII_def)
qed

text \<open>A single black pixel with the empty ramp: a result of one row and one column.\<close>

theorem empty_ramp_not_rejected_witness:
  "characterSet empty_ramp_1x1 = Some []
   \<and> (case canvasToASCII black1 empty_ramp_1x1 of
         Inl e \<Rightarrow> False
       | Inr r \<Rightarrow> width r = 1 \<and> height r = 1)"
  using empty_ramp_not_rejected[of empty_ramp_1x1 black1]
  by (simp add: empty_ramp_1x1_def black1_def targetWidth_def targetHeight_def
      split: sum.splits)

text \<open>
  The claim as stated fails: on a 1 x 1 canvas with the empty ramp the conversion returns a
  text result, not an error.
\<close>

theorem empty_ramp_counterexample:
  "canvasToASCII black1 empty_ramp_1x1
       = Inr \<lparr>ascii = ''undefined'' @ [CHR 0x0A], width = 1, height = 1\<rparr>"
  using canvasToASCII_empty_ramp[of empty_ramp_1x1 black1]
  by (simp add: empty_ramp_1x1_def black1_def targetWidth_def targetHeight_def)

lemma interior_alt: "interior tw th x y = (x > 0 \<and> x < tw - 1 \<and> y > 0 \<and> y < th - 1)"
  by (auto simp: interior_def)

lemma displayLuminance_alt:
  "displayLuminance lm tw th edge x y =
     (if edge \<and> interior tw th x y
      then clamp01 (fsub (lm ! (y * tw + x))
             (fmul (fl (sqrt (fadd (fmul (sobelX lm tw (y * tw + x)) (sobelX lm tw (y * tw + x)))
                                   (fmul (sobelY lm tw (y * tw + x)) (sobelY lm tw (y * tw + x))))))
                   (lit (5/10))))
      else lm ! (y * tw + x))"
  by (simp add: displayLuminance_def Let_def interior_alt)

lemma displayLuminance_spec:
  assumes x: "x < tw" and y: "y < th"
    and lm: "\<And>x y. x < tw \<Longrightarrow> y < th \<Longrightarrow> lm ! (y * tw + x) = raw x y"
  shows "displayLuminance lm tw th edge x y = spec_display raw tw th edge x y"
proof (cases "edge \<and> interior tw th x y")
  case False
  show ?thesis
    unfolding displayLuminance_alt spec_display_def if_not_P[OF False] by (rule lm[OF x y])
next
  case True
  then obtain x' y' where xy: "x = Suc x'" "y = Suc y'"
    by (cases x; cases y) (auto simp: interior_def)
  have b: "Suc (Suc x') < tw" "Suc (Suc y') < th" "x' < tw" "y' < th" "Suc x' < tw" "Suc y' < th"
    using True by (auto simp: interior_def xy)
  define idx where "idx = y * tw + x"
  have f1: "lm ! (idx - tw - 1) = raw (x - 1) (y - 1)"
    using lm[of "x - 1" "y - 1"] b by (simp add: idx_def xy algebra_simps)
  have f2: "lm ! (idx - tw) = raw x (y - 1)"
    using lm[of x "y - 1"] b by (simp add: idx_def xy algebra_simps)
  have f3: "lm ! (idx - tw + 1) = raw (x + 1) (y - 1)"
    using lm[of "x + 1" "y - 1"] b by (simp add: idx_def xy algebra_simps)
  have f4: "lm ! (idx - 1) = raw (x - 1) y"
    using lm[of "x - 1" y] b by (simp add: idx_def xy algebra_simps)
  have f5: "lm ! (idx + 1) = raw (x + 1) y"
    using lm[of "x + 1" y] b by (simp add: idx_def xy algebra_simps)
  have f6: "lm ! (idx + tw - 1) = raw (x - 1) (y + 1)"
    using lm[of "x - 1" "y + 1"] b by (simp add: idx_def xy algebra_simps)
  have f7: "lm ! (idx + tw) = raw x (y + 1)"
    using lm[of x "y + 1"] b by (simp add: idx_def xy algebra_simps)
  have f8: "lm ! (idx + tw + 1) = raw (x + 1) (y + 1)"
    using lm[of "x + 1" "y + 1"] b by (simp add: idx_def xy algebra_simps)
  have gx: "sobelX lm tw idx = spec_gx raw x y"
    unfolding sobelX_def spec_gx_def by (simp only: f1 f3 f4 f5 f6 f8)
  have gy: "sobelY lm tw idx = spec_gy raw x y"
    unfolding sobelY_def spec_gy_def by (simp only: f1 f2 f3 f6 f7 f8)
  show ?thesis
    unfolding displayLuminance_alt spec_display_def if_P[OF True] idx_def[symmetric] gx gy
    by (simp add: idx_def lm[OF x y])
qed

lemma firstPass_raw:
  assumes "x < targetWidth opts" "y < targetHeight cv opts"
  shows "firstPass cv (targetWidth opts) (targetHeight cv opts)
           (case contrast opts of None \<Rightarrow> 1 | Some c \<Rightarrow> c)
           (case invert opts of None \<Rightarrow> False | Some i \<Rightarrow> i) ! (y * targetWidth opts + x)
         = rawLuminance cv opts x y"
  using assms by (simp add: firstPass_nth rawLuminance_def)

lemma canvasToASCII_spec:
  assumes "has_context cv" "0 < canvas_width cv" "0 < canvas_height cv"
  shows "canvasToASCII cv opts =
     Inr \<lparr>ascii = gridText (targetWidth opts) (targetHeight cv opts)
                    (\<lambda>x y. luminanceToChar
                       (spec_display (rawLuminance cv opts) (targetWidth opts) (targetHeight cv opts)
                          (case edgeEnhance opts of None \<Rightarrow> False | Some e \<Rightarrow> e) x y)
                       (case characterSet opts of None \<Rightarrow> CHARSET_STANDARD | Some s \<Rightarrow> s)),
          width = targetWidth opts, height = targetHeight cv opts\<rparr>"
proof -
  have "gridText (targetWidth opts) (targetHeight cv opts)
          (\<lambda>x y. luminanceToChar
             (displayLuminance
                (firstPass cv (targetWidth opts) (targetHeight cv opts)
                   (case contrast opts of None \<Rightarrow> 1 | Some c \<Rightarrow> c)
                   (case invert opts of None \<Rightarrow> False | Some i \<Rightarrow> i))
                (targetWidth opts) (targetHeight cv opts)
                (case edgeEnhance opts of None \<Rightarrow> False | Some e \<Rightarrow> e) x y)
             (case characterSet opts of None \<Rightarrow> CHARSET_STANDARD | Some s \<Rightarrow> s))
      = gridText (targetWidth opts) (targetHeight cv opts)
          (\<lambda>x y. luminanceToChar
             (spec_display (rawLuminance cv opts) (targetWidth opts) (targetHeight cv opts)
                (case edgeEnhance opts of None \<Rightarrow> False | Some e \<Rightarrow> e) x y)
             (case characterSet opts of None \<Rightarrow> CHARSET_STANDARD | Some s \<Rightarrow> s))"
    by (rule gridText_cong) (simp add: displayLuminance_spec[where raw = "rawLuminance cv opts"] firstPass_raw)
  then show ?thesis using assms by (simp add: canvasToASCII_ok)
qed

lemma fold_invariant:
  assumes "P acc0" and "\<And>px acc. px \<in> set pxs \<Longrightarrow> P acc \<Longrightarrow> P (body px acc)"
  shows "P (fold body pxs acc0)"
  using assms by (induction pxs arbitrary: acc0) simp_all

lemma sampleRegion_transparent:
  assumes tr: "fully_transparent cv" and ex: "endX \<le> canvas_width cv" and ey: "endY \<le> canvas_height cv"
  shows "fst (snd (snd (snd (sampleRegion cv startX endX startY endY)))) = 0"
  unfolding sampleRegion_def
proof (rule fold_invariant[where P = "\<lambda>acc. fst (snd (snd (snd acc))) = 0"], simp)
  fix py and acc :: "nat \<times> nat \<times> nat \<times> nat \<times> nat"
  assume py: "py \<in> set [startY..<endY]" and acc: "fst (snd (snd (snd acc))) = 0"
  show "fst (snd (snd (snd (fold (samplePixel cv py) [startX..<endX] acc)))) = 0"
  proof (rule fold_invariant[where P = "\<lambda>acc. fst (snd (snd (snd acc))) = 0"], rule acc)
    fix px and acc' :: "nat \<times> nat \<times> nat \<times> nat \<times> nat"
    assume px: "px \<in> set [startX..<endX]" and acc': "fst (snd (snd (snd acc'))) = 0"
    have "px < canvas_width cv" "py < canvas_height cv" using px py ex ey by simp_all
    then have "py * canvas_width cv + px < canvas_width cv * canvas_height cv"
    proof -
      assume a: "px < canvas_width cv" "py < canvas_height cv"
      have "py * canvas_width cv + px < Suc py * canvas_width cv" using a by simp
      also have "\<dots> \<le> canvas_height cv * canvas_width cv"
        using a by (intro mult_le_mono1) simp
      finally show ?thesis by (simp add: mult.commute)
    qed
    moreover have "data cv ! (4 * i + 3) = 0" if "i < canvas_width cv * canvas_height cv" for i
      using tr that unfolding fully_transparent_def by blast
    ultimately have "data cv ! (4 * (py * canvas_width cv + px) + 3) = 0"
      by blast
    then have "data cv ! ((py * canvas_width cv + px) * 4 + 3) = 0" by (simp add: mult.commute)
    then show "fst (snd (snd (snd (samplePixel cv py px acc')))) = 0"
      using acc' by (cases acc') (simp add: samplePixel_def Let_def)
  qed
qed

lemma composite_alpha0: "compositeLuminance r g b 0 = 255"
  by (simp add: compositeLuminance_def Let_def fmul_def fadd_def fsub_def fl_0 fl_1 fl_numeral)

lemma composite_white_opaque: "compositeLuminance 255 255 255 1 = 255"
  by (simp add: compositeLuminance_def Let_def weightedRGB_white fmul_def fl_numeral)

lemma lit_half: "lit (1/2) = 1/2"
  by (simp add: lit_def fl_half)

lemma adjust_white:
  assumes "1 \<le> ctr"
  shows "adjustLuminance ctr False 255 = 1"
proof -
  have n: "fdiv 255 255 = 1" by (simp add: fdiv_def fl_1)
  have "fl (1/2) \<le> fl (1/2 * ctr)" using assms by (intro fl_mono) simp
  then have a: "1/2 \<le> fmul (1/2) ctr" by (simp add: fmul_def fl_half)
  then have "fl 1 \<le> fl (fmul (1/2) ctr + 1/2)" by (intro fl_mono) simp
  then have "1 \<le> fadd (fmul (1/2) ctr) (1/2)" by (simp add: fadd_def fl_1)
  then have "clamp01 (fadd (fmul (1/2) ctr) (1/2)) = 1" by (simp add: clamp01_def)
  then show ?thesis
    by (simp add: adjustLuminance_def Let_def n lit_half fsub_def fl_half)
qed

lemma cellLuminance_transparent:
  assumes tr: "fully_transparent cv" and c: "1 \<le> ctr"
  shows "cellLuminance cv stepX stepY ctr False x y = 1"
proof -
  define startX where "startX = nat \<lfloor>fmul (real x) stepX\<rfloor>"
  define startY where "startY = nat \<lfloor>fmul (real y) stepY\<rfloor>"
  define endX where "endX = min (nat \<lfloor>fmul (real (x + 1)) stepX\<rfloor>) (canvas_width cv)"
  define endY where "endY = min (nat \<lfloor>fmul (real (y + 1)) stepY\<rfloor>) (canvas_height cv)"
  obtain tr' tg tb ta n where s: "sampleRegion cv startX endX startY endY = (tr', tg, tb, ta, n)"
    by (metis prod_cases5)
  have "ta = 0"
    using sampleRegion_transparent[OF tr, of endX endY startX startY] s
    by (simp add: endX_def endY_def)
  then have "compositeLuminance (if n > 0 then fdiv (real tr') (real n) else 255)
               (if n > 0 then fdiv (real tg) (real n) else 255)
               (if n > 0 then fdiv (real tb) (real n) else 255)
               (if n > 0 then fdiv (fdiv (real ta) (real n)) 255 else 1) = 255"
    by (simp add: composite_alpha0 composite_white_opaque fdiv_def fl_0)
  then show ?thesis
    unfolding cellLuminance_def Let_def startX_def[symmetric] startY_def[symmetric]
      endX_def[symmetric] endY_def[symmetric] s
    by (simp add: adjust_white[OF c] del: One_nat_def)
qed

lemma spec_display_ones:
  assumes "\<And>x y. x < tw \<Longrightarrow> y < th \<Longrightarrow> raw x y = 1" "x < tw" "y < th"
  shows "spec_display raw tw th edge x y = 1"
proof (cases "edge \<and> interior tw th x y")
  case False
  show ?thesis unfolding spec_display_def if_not_P[OF False] using assms by simp
next
  case True
  then obtain x' y' where xy: "x = Suc x'" "y = Suc y'"
    by (cases x; cases y) (auto simp: interior_def)
  have b: "Suc (Suc x') < tw" "Suc (Suc y') < th" "x' < tw" "y' < th" "Suc x' < tw" "Suc y' < th"
    using True by (auto simp: interior_def xy)
  have gx: "spec_gx raw x y = 0"
    by (simp add: spec_gx_def xy assms(1) b fadd_def fsub_def fmul_def fl_0 fl_1 fl_numeral fl_neg_numeral fl_uminus)
  have gy: "spec_gy raw x y = 0"
    by (simp add: spec_gy_def xy assms(1) b fadd_def fsub_def fmul_def fl_0 fl_1 fl_numeral fl_neg_numeral fl_uminus)
  show ?thesis
    unfolding spec_display_def if_P[OF True] gx gy
    using assms by (simp add: fadd_def fsub_def fmul_def fl_0 fl_1 clamp01_def)
qed

lemma concat_replicate_single: "concat (replicate n [c]) = replicate n c"
  by (induction n) simp_all

lemma canvasToASCII_transparent:
  assumes "has_context cv" "0 < canvas_width cv" "0 < canvas_height cv"
    and tr: "fully_transparent cv"
    and inv: "invert opts \<noteq> Some True"
    and ctr: "case contrast opts of None \<Rightarrow> True | Some c \<Rightarrow> 1 \<le> c"
    and cs: "cs = (case characterSet opts of None \<Rightarrow> CHARSET_STANDARD | Some s \<Rightarrow> s)"
    and ne: "cs \<noteq> []" and len: "length cs < 2 ^ 53"
  shows "canvasToASCII cv opts =
           Inr \<lparr>ascii = concat (replicate (targetHeight cv opts)
                             (replicate (targetWidth opts) (last cs) @ [CHR 0x0A])),
                width = targetWidth opts, height = targetHeight cv opts\<rparr>"
proof -
  have i: "(case invert opts of None \<Rightarrow> False | Some i \<Rightarrow> i) = False"
    using inv by (cases "invert opts") auto
  have c: "1 \<le> (case contrast opts of None \<Rightarrow> 1 | Some c \<Rightarrow> c)"
    using ctr by (cases "contrast opts") auto
  have raw: "\<And>x y. rawLuminance cv opts x y = 1"
    unfolding rawLuminance_def i by (simp add: cellLuminance_transparent[OF tr c] f32_1)
  have "gridText (targetWidth opts) (targetHeight cv opts)
          (\<lambda>x y. luminanceToChar
             (spec_display (rawLuminance cv opts) (targetWidth opts) (targetHeight cv opts)
                (case edgeEnhance opts of None \<Rightarrow> False | Some e \<Rightarrow> e) x y) cs)
      = gridText (targetWidth opts) (targetHeight cv opts) (\<lambda>x y. Some (last cs))"
    by (rule gridText_cong) (simp add: spec_display_ones raw luminanceToChar_1[OF ne len])
  also have "\<dots> = concat (replicate (targetHeight cv opts)
                             (replicate (targetWidth opts) (last cs) @ [CHR 0x0A]))"
    by (simp add: gridText_const charText_def concat_replicate_single)
  finally show ?thesis using assms(1-3) by (simp add: canvasToASCII_spec cs)
qed

lemma cellLuminance_transparent_gen:
  assumes tr: "fully_transparent cv"
  shows "cellLuminance cv stepX stepY ctr ivt x y = adjustLuminance ctr ivt 255"
proof -
  define startX where "startX = nat \<lfloor>fmul (real x) stepX\<rfloor>"
  define startY where "startY = nat \<lfloor>fmul (real y) stepY\<rfloor>"
  define endX where "endX = min (nat \<lfloor>fmul (real (x + 1)) stepX\<rfloor>) (canvas_width cv)"
  define endY where "endY = min (nat \<lfloor>fmul (real (y + 1)) stepY\<rfloor>) (canvas_height cv)"
  obtain tr' tg tb ta n where s: "sampleRegion cv startX endX startY endY = (tr', tg, tb, ta, n)"
    by (metis prod_cases5)
  have "ta = 0"
    using sampleRegion_transparent[OF tr, of endX endY startX startY] s
    by (simp add: endX_def endY_def)
  then have "compositeLuminance (if n > 0 then fdiv (real tr') (real n) else 255)
               (if n > 0 then fdiv (real tg) (real n) else 255)
               (if n > 0 then fdiv (real tb) (real n) else 255)
               (if n > 0 then fdiv (fdiv (real ta) (real n)) 255 else 1) = 255"
    by (simp add: composite_alpha0 composite_white_opaque fdiv_def fl_0)
  then show ?thesis
    unfolding cellLuminance_def Let_def startX_def[symmetric] startY_def[symmetric]
      endX_def[symmetric] endY_def[symmetric] s
    by (simp del: One_nat_def)
qed

lemma gridText_1_1: "gridText 1 1 cell = charText (cell 0 0) @ [CHR 0x0A]"
  by (simp add: gridText_def)

lemma fl_3_4: "fl (3/4) = 3/4"
  using fl_dyadic[of 3 2] by simp

lemma fl_1_4: "fl (1/4) = 1/4"
  using fl_dyadic[of 1 2] by simp

lemma f32_3_4: "f32 (3/4) = 3/4"
  using f32_dyadic[of 3 2] by simp

lemma adjust_half_contrast: "adjustLuminance (1/2) False 255 = 3/4"
  by (simp add: adjustLuminance_def Let_def fdiv_def fsub_def fmul_def fadd_def lit_half
      fl_1 fl_half fl_1_4 fl_3_4 clamp01_def)

lemma transparent1_transparent: "fully_transparent transparent1"
  by (simp add: fully_transparent_def transparent1_def)

lemma char_3_4: "luminanceToChar (3/4) CHARSET_STANDARD = Some (CHR ''-'')"
  by (simp add: luminanceToChar_def rampIndex_def charAt_def CHARSET_STANDARD_def Let_def fmul_def
      fl_numeral)

text \<open>
  The claim as stated fails: at contrast 0.5 a transparent pixel has luminance 0.75 and
  maps to the seventh character of the standard ramp, not to its last one.
\<close>

theorem half_contrast_counterexample:
  "canvasToASCII transparent1 half_contrast
     = Inr \<lparr>ascii = ''-'' @ [CHR 0x0A], width = 1, height = 1\<rparr>
   \<and> last CHARSET_STANDARD = CHR '' ''"
proof -
  have ok: "has_context transparent1" "0 < canvas_width transparent1" "0 < canvas_height transparent1"
    by (simp_all add: transparent1_def)
  have d: "targetWidth half_contrast = 1" "targetHeight transparent1 half_contrast = 1"
    "(case edgeEnhance half_contrast of None \<Rightarrow> False | Some e \<Rightarrow> e) = False"
    "(case characterSet half_contrast of None \<Rightarrow> CHARSET_STANDARD | Some s \<Rightarrow> s) = CHARSET_STANDARD"
    by (simp_all add: targetWidth_def targetHeight_def half_contrast_def)
  have raw: "rawLuminance transparent1 half_contrast 0 0 = 3/4"
    unfolding rawLuminance_def cellLuminance_transparent_gen[OF transparent1_transparent]
    by (simp add: half_contrast_def adjust_half_contrast f32_3_4)
  have "canvasToASCII transparent1 half_contrast
     = Inr \<lparr>ascii = ''-'' @ [CHR 0x0A], width = 1, height = 1\<rparr>"
    unfolding canvasToASCII_spec[OF ok] d gridText_1_1
    by (simp add: spec_display_def raw char_3_4 charText_def)
  then show ?thesis by (simp add: CHARSET_STANDARD_def)
qed

text \<open>
  Claim C6. The text of a conversion is, cell by cell, the character of \<open>spec_display\<close>
  over the values the first pass stored: an interior cell under edge enhancement shows its
  stored value less half the Sobel magnitude of its eight neighbours' stored values,
  clamped to \<open>[0, 1]\<close>; every border cell, and every cell without edge enhancement, shows
  its stored value. The second pass reads the map of the first pass and never writes it.
\<close>

theorem edge_enhancement_reads_first_pass:
  assumes "has_context cv" "0 < canvas_width cv" "0 < canvas_height cv"
  shows "canvasToASCII cv opts =
     Inr \<lparr>ascii = gridText (targetWidth opts) (targetHeight cv opts)
                    (\<lambda>x y. luminanceToChar
                       (spec_display (rawLuminance cv opts) (targetWidth opts) (targetHeight cv opts)
                          (case edgeEnhance opts of None \<Rightarrow> False | Some e \<Rightarrow> e) x y)
                       (case characterSet opts of None \<Rightarrow> CHARSET_STANDARD | Some s \<Rightarrow> s)),
          width = targetWidth opts, height = targetHeight cv opts\<rparr>"
  using assms by (rule canvasToASCII_spec)

text \<open>A 3 x 3 grid has one interior cell, \<open>(1, 1)\<close>.\<close>

theorem edge_enhancement_reads_first_pass_witness:
  "has_context transparent3 \<and> 0 < canvas_width transparent3 \<and> 0 < canvas_height transparent3
   \<and> canvasToASCII transparent3 edge_3x3 =
     Inr \<lparr>ascii = gridText 3 3
                    (\<lambda>x y. luminanceToChar
                       (spec_display (rawLuminance transparent3 edge_3x3) 3 3 True x y)
                       CHARSET_STANDARD),
          width = 3, height = 3\<rparr>
   \<and> interior 3 3 1 1 \<and> \<not> interior 3 3 0 1"
proof -
  have d: "targetWidth edge_3x3 = 3" "targetHeight transparent3 edge_3x3 = 3"
    by (simp_all add: targetWidth_def targetHeight_def edge_3x3_def)
  have e: "edgeEnhance edge_3x3 = Some True" "characterSet edge_3x3 = None"
    by (simp_all add: edge_3x3_def)
  have ok: "has_context transparent3" "0 < canvas_width transparent3"
    "0 < canvas_height transparent3"
    by (simp_all add: transparent3_def)
  have "canvasToASCII transparent3 edge_3x3 =
     Inr \<lparr>ascii = gridText 3 3
                    (\<lambda>x y. luminanceToChar
                       (spec_display (rawLuminance transparent3 edge_3x3) 3 3 True x y)
                       CHARSET_STANDARD),
          width = 3, height = 3\<rparr>"
    using edge_enhancement_reads_first_pass[OF ok, of edge_3x3] by (simp add: d e)
  then show ?thesis using ok by (simp add: interior_def)
qed

lemma fl_neg_2_52: "fl (- (1 / 4503599627370496)) = - (1 / 4503599627370496)"
  using fl_dyadic[of 1 52] by (simp add: fl_uminus)

lemma fl_neg_2_49: "fl (- (1 / 562949953421312)) = - (1 / 562949953421312)"
  using fl_dyadic[of 1 49] by (simp add: fl_uminus)

lemma f32_neg_2_52: "f32 (- (1 / 4503599627370496)) = - (1 / 4503599627370496)"
  using f32_dyadic[of 1 52] by (simp add: f32_def round_fp_uminus)

lemma white20_sample: "sampleRegion white20 0 1 0 1 = (255, 255, 255, 20, 1)"
  by (simp add: sampleRegion_def samplePixel_def white20_def)

lemma white20_composite:
  "compositeLuminance 255 255 255 (1412894000743685 / 18014398509481984)
     = 8972014882652161 / 35184372088832"
  by (simp add: compositeLuminance_def Let_def weightedRGB_white bug_scaled bug_one_minus_a
      bug_white_part bug_composite)

lemma white20_adjust:
  "adjustLuminance 1 True (8972014882652161 / 35184372088832) = - (1 / 4503599627370496)"
  by (simp add: adjustLuminance_def Let_def bug_normalised fsub_def fl_neg_2_52)

lemma white20_cell: "cellLuminance white20 1 1 1 True 0 0 = - (1 / 4503599627370496)"
proof -
  have b: "nat \<lfloor>fmul (real 0) 1\<rfloor> = 0" "min (nat \<lfloor>fmul (real (0 + 1)) 1\<rfloor>) (canvas_width white20) = 1"
    "min (nat \<lfloor>fmul (real (0 + 1)) 1\<rfloor>) (canvas_height white20) = 1"
    by (simp_all add: fmul_def fl_0 fl_1 white20_def)
  have r1: "fdiv 255 1 = 255" "fdiv 20 1 = 20"
    by (simp_all add: fdiv_def fl_numeral)
  have r: "fdiv (real 255) (real 1) = 255"
    "fdiv (fdiv (real 20) (real 1)) 255 = 1412894000743685 / 18014398509481984"
    by (simp_all add: r1 alpha_20)
  show ?thesis
    unfolding cellLuminance_def Let_def b white20_sample
    by (simp only: prod.case r white20_composite white20_adjust if_True zero_less_one)
qed

lemma white20_char: "luminanceToChar (- (1 / 4503599627370496)) CHARSET_STANDARD = None"
  by (simp add: luminanceToChar_def rampIndex_def charAt_def CHARSET_STANDARD_def Let_def fmul_def
      fl_neg_2_49)

text \<open>
  Claim C10 fails on the code. One pixel \<open>(255, 255, 255, 20)\<close> with \<open>invert\<close> set and the
  default contrast: the composite is \<open>255 + 2 powi -45\<close> in binary64, the normalised value
  \<open>1 + 2 powi -52\<close>, its inversion \<open>- (2 powi -52)\<close>, which the binary32 store keeps. The
  index computed for it is \<open>-1\<close>, the character read is \<^verbatim>\<open>undefined\<close>, and the text holds
  the word \<^verbatim>\<open>undefined\<close> in place of a character of the nine-character standard ramp.
\<close>

theorem inverted_white_leaves_unit_interval:
  "firstPass white20 1 1 1 True = [- (1 / 2 ^ 52)]
   \<and> canvasToASCII white20 inverted_cell
       = Inr \<lparr>ascii = ''undefined'' @ [CHR 0x0A], width = 1, height = 1\<rparr>
   \<and> 2 \<le> length CHARSET_STANDARD"
proof -
  have ok: "has_context white20" "0 < canvas_width white20" "0 < canvas_height white20"
    by (simp_all add: white20_def)
  have d: "targetWidth inverted_cell = 1" "targetHeight white20 inverted_cell = 1"
    "(case edgeEnhance inverted_cell of None \<Rightarrow> False | Some e \<Rightarrow> e) = False"
    "(case characterSet inverted_cell of None \<Rightarrow> CHARSET_STANDARD | Some s \<Rightarrow> s) = CHARSET_STANDARD"
    by (simp_all add: targetWidth_def targetHeight_def inverted_cell_def)
  have s: "fdiv (real (canvas_width white20)) 1 = 1" "fdiv (real (canvas_height white20)) 1 = 1"
    by (simp_all add: white20_def fdiv_def fl_1)
  have n: "firstPass white20 1 1 1 True ! 0 = - (1 / 4503599627370496)"
    using firstPass_nth[of 0 1 0 1 white20 1 True]
    by (simp add: s white20_cell f32_neg_2_52)
  have l: "length (firstPass white20 1 1 1 True) = 1" by (simp add: firstPass_length)
  have fp: "firstPass white20 1 1 1 True = [- (1 / 2 ^ 52)]"
    using n l by (cases "firstPass white20 1 1 1 True") simp_all
  have raw: "rawLuminance white20 inverted_cell 0 0 = - (1 / 4503599627370496)"
    unfolding rawLuminance_def d
    by (simp add: inverted_cell_def s white20_cell f32_neg_2_52)
  have "canvasToASCII white20 inverted_cell
       = Inr \<lparr>ascii = ''undefined'' @ [CHR 0x0A], width = 1, height = 1\<rparr>"
    unfolding canvasToASCII_spec[OF ok] d gridText_1_1
    by (simp add: spec_display_def raw white20_char charText_def)
  then show ?thesis using fp by (simp add: CHARSET_STANDARD_def)
qed

section \<open>Transparency\<close>

lemma cellLuminance_average:
  "cellLuminance cv stepX stepY ctr ivt x y =
     (case cellAverage cv stepX stepY x y of
        (r, g, b, a) \<Rightarrow>
          adjustLuminance ctr ivt
            (if a < 1 then fadd (fmul (weightedRGB r g b) a) (fmul 255 (fsub 1 a))
             else fmul (weightedRGB r g b) a))"
  by (simp add: cellLuminance_def cellAverage_def compositeLuminance_def Let_def
      split: prod.splits)

lemma rawLuminance_composite:
  "rawLuminance cv opts =
     (\<lambda>x y. case cellAverage cv (fdiv (real (canvas_width cv)) (real (targetWidth opts)))
                     (fdiv (real (canvas_height cv)) (real (targetHeight cv opts))) x y of
              (r, g, b, a) \<Rightarrow>
                f32 (adjustLuminance (case contrast opts of None \<Rightarrow> 1 | Some c \<Rightarrow> c)
                       (case invert opts of None \<Rightarrow> False | Some i \<Rightarrow> i)
                       (if a < 1 then fadd (fmul (weightedRGB r g b) a) (fmul 255 (fsub 1 a))
                        else fmul (weightedRGB r g b) a)))"
  by (intro ext) (simp add: rawLuminance_def cellLuminance_average split: prod.splits)

lemma alpha_51: "fdiv 51 255 = 3602879701896397 / 18014398509481984"
  using fl_eval_as[of 55 "51 / 255" 7205759403792794 "3602879701896397 / 18014398509481984"] by (simp add: fdiv_def)

lemma veil_one_minus_a: "fsub 1 (3602879701896397 / 18014398509481984) = 3602879701896397 / 4503599627370496"
  using fl_eval_as[of 53 "1 - (3602879701896397 / 18014398509481984)" 7205759403792794 "3602879701896397 / 4503599627370496"] by (simp add: fsub_def)

lemma veil_white_part: "fmul 255 (3602879701896397 / 4503599627370496) = 204"
  using fl_eval_as[of 45 "255 * (3602879701896397 / 4503599627370496)" 7177611906121728 "204"] by (simp add: fmul_def)

lemma veil_normalised: "fdiv 204 255 = 3602879701896397 / 4503599627370496"
  using fl_eval_as[of 53 "204 / 255" 7205759403792794 "3602879701896397 / 4503599627370496"] by (simp add: fdiv_def)

lemma black51_sample: "sampleRegion black51 0 1 0 1 = (0, 0, 0, 51, 1)"
  by (simp add: sampleRegion_def samplePixel_def black51_def)

lemma black51_average:
  "cellAverage black51 1 1 0 0 = (0, 0, 0, 3602879701896397 / 18014398509481984)"
proof -
  have b: "nat \<lfloor>fmul (real 0) 1\<rfloor> = 0" "min (nat \<lfloor>fmul (real (0 + 1)) 1\<rfloor>) (canvas_width black51) = 1"
    "min (nat \<lfloor>fmul (real (0 + 1)) 1\<rfloor>) (canvas_height black51) = 1"
    by (simp_all add: fmul_def fl_0 fl_1 black51_def)
  have r1: "fdiv 0 1 = 0" "fdiv 51 1 = 51"
    by (simp_all add: fdiv_def fl_0 fl_numeral)
  have r: "fdiv (real 0) (real 1) = 0"
    "fdiv (fdiv (real 51) (real 1)) 255 = 3602879701896397 / 18014398509481984"
    by (simp_all add: r1 alpha_51)
  show ?thesis
    unfolding cellAverage_def Let_def b black51_sample
    by (simp only: prod.case r if_True zero_less_one)
qed

lemma black51_composite:
  "fadd (fmul (weightedRGB 0 0 0) (3602879701896397 / 18014398509481984))
        (fmul 255 (fsub 1 (3602879701896397 / 18014398509481984))) = 204"
  unfolding veil_one_minus_a veil_white_part
  by (simp add: weightedRGB_def fmul_def fadd_def fl_0 fl_numeral)

lemma black51_adjust: "adjustLuminance 1 False 204 = 3602879701896397 / 4503599627370496"
  by (simp add: adjustLuminance_def Let_def veil_normalised)

lemma black51_char:
  "luminanceToChar (f32 (3602879701896397 / 4503599627370496)) CHARSET_STANDARD = Some (CHR ''-'')"
proof -
  define l where "l = f32 (3602879701896397 / 4503599627370496)"
  have lo: "3/4 \<le> l"
    unfolding l_def using f32_mono[of "3/4" "3602879701896397 / 4503599627370496"]
    by (simp add: f32_3_4)
  have "f32 (3602879701896397 / 4503599627370496) \<le> f32 (13 / 2 ^ 4)"
    by (rule f32_mono) simp
  then have hi: "l \<le> 13/16"
    unfolding l_def using f32_dyadic[of 13 4] by simp
  have "fl 6 \<le> fl (l * 8)" using lo by (intro fl_mono) simp
  then have a: "6 \<le> fmul l 8" by (simp add: fmul_def fl_numeral)
  have "fl (l * 8) \<le> fl (13 / 2 ^ 1)" using hi by (intro fl_mono) simp
  then have b: "fmul l 8 \<le> 13/2" using fl_dyadic[of 13 1] by (simp add: fmul_def)
  have "\<lfloor>fmul l 8\<rfloor> = 6" using a b by (intro floor_unique) simp_all
  then show ?thesis
    unfolding l_def[symmetric]
    by (simp add: luminanceToChar_def rampIndex_def charAt_def CHARSET_STANDARD_def Let_def)
qed

text \<open>
  Claim C5, as amended. For every cell \<open>(x, y)\<close> of the grid, with \<open>r\<close>, \<open>g\<close>, \<open>b\<close>, \<open>a\<close> the
  averages of the cell, the value the first pass stores is the binary32 rounding of the
  adjusted luminance (division by 255, contrast, inversion) of the weighted sum scaled by
  \<open>a\<close>, to which \<open>255 * (1 - a)\<close> is added first when \<open>a < 1\<close>; the text of the conversion
  is made, cell by cell, from these values. On a fully transparent canvas, without
  inversion, with a contrast of at least 1 (1 is the default) and a non-empty ramp, every
  cell of the text is the ramp's last character, with or without edge enhancement.
\<close>

theorem transparent_is_lightest:
  assumes "wf_canvas cv" "has_context cv" "0 < canvas_width cv" "0 < canvas_height cv"
    and "cs = (case characterSet opts of None \<Rightarrow> CHARSET_STANDARD | Some s \<Rightarrow> s)"
  shows "(\<forall>x < targetWidth opts. \<forall>y < targetHeight cv opts.
            firstPass cv (targetWidth opts) (targetHeight cv opts)
              (case contrast opts of None \<Rightarrow> 1 | Some c \<Rightarrow> c)
              (case invert opts of None \<Rightarrow> False | Some i \<Rightarrow> i) ! (y * targetWidth opts + x)
            = (case cellAverage cv (fdiv (real (canvas_width cv)) (real (targetWidth opts)))
                      (fdiv (real (canvas_height cv)) (real (targetHeight cv opts))) x y of
                 (r, g, b, a) \<Rightarrow>
                   f32 (adjustLuminance (case contrast opts of None \<Rightarrow> 1 | Some c \<Rightarrow> c)
                          (case invert opts of None \<Rightarrow> False | Some i \<Rightarrow> i)
                          (if a < 1 then fadd (fmul (weightedRGB r g b) a) (fmul 255 (fsub 1 a))
                           else fmul (weightedRGB r g b) a))))
       \<and> canvasToASCII cv opts =
           Inr \<lparr>ascii = gridText (targetWidth opts) (targetHeight cv opts)
                  (\<lambda>x y. luminanceToChar
                     (spec_display
                        (\<lambda>x y. case cellAverage cv
                                       (fdiv (real (canvas_width cv)) (real (targetWidth opts)))
                                       (fdiv (real (canvas_height cv)) (real (targetHeight cv opts)))
                                       x y of
                                 (r, g, b, a) \<Rightarrow>
                                   f32 (adjustLuminance
                                          (case contrast opts of None \<Rightarrow> 1 | Some c \<Rightarrow> c)
                                          (case invert opts of None \<Rightarrow> False | Some i \<Rightarrow> i)
                                          (if a < 1
                                           then fadd (fmul (weightedRGB r g b) a)
                                                     (fmul 255 (fsub 1 a))
                                           else fmul (weightedRGB r g b) a)))
                        (targetWidth opts) (targetHeight cv opts)
                        (case edgeEnhance opts of None \<Rightarrow> False | Some e \<Rightarrow> e) x y) cs),
                width = targetWidth opts, height = targetHeight cv opts\<rparr>
       \<and> (fully_transparent cv \<and> invert opts \<noteq> Some True
            \<and> (case contrast opts of None \<Rightarrow> True | Some c \<Rightarrow> 1 \<le> c)
            \<and> cs \<noteq> [] \<and> length cs < 2 ^ 53
          \<longrightarrow> canvasToASCII cv opts =
                Inr \<lparr>ascii = concat (replicate (targetHeight cv opts)
                                  (replicate (targetWidth opts) (last cs) @ [CHR 0x0A])),
                     width = targetWidth opts, height = targetHeight cv opts\<rparr>)"
proof (intro conjI allI impI)
  fix x y assume xy: "x < targetWidth opts" "y < targetHeight cv opts"
  show "firstPass cv (targetWidth opts) (targetHeight cv opts)
              (case contrast opts of None \<Rightarrow> 1 | Some c \<Rightarrow> c)
              (case invert opts of None \<Rightarrow> False | Some i \<Rightarrow> i) ! (y * targetWidth opts + x)
            = (case cellAverage cv (fdiv (real (canvas_width cv)) (real (targetWidth opts)))
                      (fdiv (real (canvas_height cv)) (real (targetHeight cv opts))) x y of
                 (r, g, b, a) \<Rightarrow>
                   f32 (adjustLuminance (case contrast opts of None \<Rightarrow> 1 | Some c \<Rightarrow> c)
                          (case invert opts of None \<Rightarrow> False | Some i \<Rightarrow> i)
                          (if a < 1 then fadd (fmul (weightedRGB r g b) a) (fmul 255 (fsub 1 a))
                           else fmul (weightedRGB r g b) a)))"
    unfolding firstPass_raw[OF xy] by (simp only: rawLuminance_composite)
next
  show "canvasToASCII cv opts =
           Inr \<lparr>ascii = gridText (targetWidth opts) (targetHeight cv opts)
                  (\<lambda>x y. luminanceToChar
                     (spec_display
                        (\<lambda>x y. case cellAverage cv
                                       (fdiv (real (canvas_width cv)) (real (targetWidth opts)))
                                       (fdiv (real (canvas_height cv)) (real (targetHeight cv opts)))
                                       x y of
                                 (r, g, b, a) \<Rightarrow>
                                   f32 (adjustLuminance
                                          (case contrast opts of None \<Rightarrow> 1 | Some c \<Rightarrow> c)
                                          (case invert opts of None \<Rightarrow> False | Some i \<Rightarrow> i)
                                          (if a < 1
                                           then fadd (fmul (weightedRGB r g b) a)
                                                     (fmul 255 (fsub 1 a))
                                           else fmul (weightedRGB r g b) a)))
                        (targetWidth opts) (targetHeight cv opts)
                        (case edgeEnhance opts of None \<Rightarrow> False | Some e \<Rightarrow> e) x y) cs),
                width = targetWidth opts, height = targetHeight cv opts\<rparr>"
    unfolding canvasToASCII_spec[OF assms(2-4)] assms(5)
    by (simp only: rawLuminance_composite)
next
  assume t: "fully_transparent cv \<and> invert opts \<noteq> Some True
            \<and> (case contrast opts of None \<Rightarrow> True | Some c \<Rightarrow> 1 \<le> c)
            \<and> cs \<noteq> [] \<and> length cs < 2 ^ 53"
  show "canvasToASCII cv opts =
                Inr \<lparr>ascii = concat (replicate (targetHeight cv opts)
                                  (replicate (targetWidth opts) (last cs) @ [CHR 0x0A])),
                     width = targetWidth opts, height = targetHeight cv opts\<rparr>"
    using t by (intro canvasToASCII_transparent[OF assms(2-4) _ _ _ assms(5)]) simp_all
qed

text \<open>
  A black pixel of alpha 51 (a fifth) is composited to 204 of 255 and shows as the seventh
  character of the standard ramp, not as the first; a transparent 3 x 3 canvas on a 3 x 3
  grid gives three rows of three blanks.
\<close>

theorem transparent_is_lightest_witness:
  "wf_canvas black51 \<and> has_context black51
   \<and> 0 < canvas_width black51 \<and> 0 < canvas_height black51
   \<and> cellAverage black51 1 1 0 0 = (0, 0, 0, 3602879701896397 / 18014398509481984)
   \<and> canvasToASCII black51 one_cell =
        Inr \<lparr>ascii = ''-'' @ [CHR 0x0A], width = 1, height = 1\<rparr>
   \<and> wf_canvas transparent3 \<and> has_context transparent3
   \<and> 0 < canvas_width transparent3 \<and> 0 < canvas_height transparent3
   \<and> fully_transparent transparent3 \<and> invert edge_3x3 \<noteq> Some True
   \<and> (case contrast edge_3x3 of None \<Rightarrow> True | Some c \<Rightarrow> 1 \<le> c)
   \<and> CHARSET_STANDARD \<noteq> [] \<and> length CHARSET_STANDARD < 2 ^ 53
   \<and> canvasToASCII transparent3 edge_3x3 =
        Inr \<lparr>ascii = ''   '' @ [CHR 0x0A] @ ''   '' @ [CHR 0x0A] @ ''   '' @ [CHR 0x0A],
             width = 3, height = 3\<rparr>"
proof -
  have h1: "wf_canvas black51" "has_context black51"
    "0 < canvas_width black51" "0 < canvas_height black51"
    by (simp_all add: wf_canvas_def black51_def)
  have o1: "CHARSET_STANDARD = (case characterSet one_cell of None \<Rightarrow> CHARSET_STANDARD | Some s \<Rightarrow> s)"
    by (simp add: one_cell_def)
  have d1: "targetWidth one_cell = 1" "targetHeight black51 one_cell = 1"
    "(case contrast one_cell of None \<Rightarrow> 1 | Some c \<Rightarrow> c) = 1"
    "(case invert one_cell of None \<Rightarrow> False | Some i \<Rightarrow> i) = False"
    "(case edgeEnhance one_cell of None \<Rightarrow> False | Some e \<Rightarrow> e) = False"
    "fdiv (real (canvas_width black51)) (real 1) = 1"
    "fdiv (real (canvas_height black51)) (real 1) = 1"
    by (simp_all add: targetWidth_def targetHeight_def one_cell_def black51_def fdiv_def fl_1)
  have a: "(3602879701896397 / 18014398509481984 :: real) < 1" by simp
  have "canvasToASCII black51 one_cell =
          Inr \<lparr>ascii = gridText 1 1
                  (\<lambda>x y. luminanceToChar
                     (spec_display
                        (\<lambda>x y. case cellAverage black51 1 1 x y of
                                 (r, g, b, a) \<Rightarrow>
                                   f32 (adjustLuminance 1 False
                                          (if a < 1
                                           then fadd (fmul (weightedRGB r g b) a)
                                                     (fmul 255 (fsub 1 a))
                                           else fmul (weightedRGB r g b) a)))
                        1 1 False x y) CHARSET_STANDARD),
                width = 1, height = 1\<rparr>"
    using transparent_is_lightest[OF h1 o1] unfolding d1 by (rule conjunct1[OF conjunct2])
  then have b: "canvasToASCII black51 one_cell =
        Inr \<lparr>ascii = ''-'' @ [CHR 0x0A], width = 1, height = 1\<rparr>"
    unfolding gridText_1_1 spec_display_def
    by (simp only: simp_thms if_False black51_average prod.case a if_True black51_composite
        black51_adjust black51_char charText_def option.case)
  have tr: "fully_transparent transparent3"
    by (simp add: fully_transparent_def transparent3_def)
  have d: "targetWidth edge_3x3 = 3" "targetHeight transparent3 edge_3x3 = 3"
    by (simp_all add: targetWidth_def targetHeight_def edge_3x3_def)
  have h: "wf_canvas transparent3" "has_context transparent3"
    "0 < canvas_width transparent3" "0 < canvas_height transparent3"
    by (simp_all add: wf_canvas_def transparent3_def)
  have o: "invert edge_3x3 \<noteq> Some True"
    "case contrast edge_3x3 of None \<Rightarrow> True | Some c \<Rightarrow> 1 \<le> c"
    by (simp_all add: edge_3x3_def)
  have o3: "CHARSET_STANDARD = (case characterSet edge_3x3 of None \<Rightarrow> CHARSET_STANDARD | Some s \<Rightarrow> s)"
    by (simp add: edge_3x3_def)
  have c: "CHARSET_STANDARD \<noteq> []" "length CHARSET_STANDARD < 2 ^ 53"
    "last CHARSET_STANDARD = CHR '' ''"
    by (simp_all add: CHARSET_STANDARD_def)
  have "canvasToASCII transparent3 edge_3x3 =
        Inr \<lparr>ascii = concat (replicate (targetHeight transparent3 edge_3x3)
                          (replicate (targetWidth edge_3x3) (last CHARSET_STANDARD) @ [CHR 0x0A])),
             width = targetWidth edge_3x3, height = targetHeight transparent3 edge_3x3\<rparr>"
    using transparent_is_lightest[OF h o3] tr o c(1,2) by blast
  then have "canvasToASCII transparent3 edge_3x3 =
        Inr \<lparr>ascii = concat (replicate 3 (replicate 3 (CHR '' '') @ [CHR 0x0A])),
             width = 3, height = 3\<rparr>"
    by (simp add: d c(3))
  then have e: "canvasToASCII transparent3 edge_3x3 =
        Inr \<lparr>ascii = ''   '' @ [CHR 0x0A] @ ''   '' @ [CHR 0x0A] @ ''   '' @ [CHR 0x0A],
             width = 3, height = 3\<rparr>"
    by (simp add: numeral_3_eq_3)
  show ?thesis
    using h1 black51_average b h tr o c(1,2) e by (intro conjI)
qed

section \<open>The point cloud\<close>

lemma for_stride_fold:
  assumes "0 < step"
  shows "for_stride i n step body s =
           fold body (map (\<lambda>k. i + k * step) [0..<(n - i + step - 1) div step]) s"
  using assms
proof (induction i n step body s rule: for_stride.induct)
  case (1 i n step body s)
  note st = \<open>0 < step\<close>
  show ?case
  proof (cases "i < n")
    case False
    then have "n - i + step - 1 = step - 1" by simp
    then have "(n - i + step - 1) div step = 0" using st by simp
    then show ?thesis using False st by (simp add: for_stride.simps[of i n])
  next
    case True
    define c where "c = (n - (i + step) + step - 1) div step"
    have cc: "(n - i + step - 1) div step = Suc c"
    proof (cases "i + step \<le> n")
      case t: True
      define m where "m = n - (i + step)"
      have m: "n = i + step + m" using t by (simp add: m_def)
      have a: "n - (i + step) + step - 1 = m + step - 1" by (simp add: m)
      have b: "n - i + step - 1 = (m + step - 1) + step" using st by (simp add: m)
      have "(m + step - 1 + step) div step = Suc ((m + step - 1) div step)"
        using st by (simp only: div_add_self2)
      then show ?thesis unfolding c_def a b .
    next
      case f: False
      define e where "e = n - i - 1"
      have e: "n = i + Suc e" using True by (simp add: e_def)
      have es: "e < step" using f e by simp
      have a: "n - (i + step) + step - 1 = step - 1" using f by simp
      have b: "n - i + step - 1 = e + step" by (simp add: e)
      show ?thesis unfolding c_def a b using st es by simp
    qed
    have u: "[0..<Suc c] = 0 # map Suc [0..<c]"
      by (simp add: upt_conv_Cons map_Suc_upt del: upt_Suc)
    have m: "map (\<lambda>k. i + k * step) [0..<Suc c] = i # map (\<lambda>k. i + step + k * step) [0..<c]"
      unfolding u by (simp add: comp_def add.assoc)
    have "for_stride i n step body s = for_stride (i + step) n step body (body i s)"
      using True st by (simp add: for_stride.simps[of i n])
    also have "\<dots> = fold body (map (\<lambda>k. i + step + k * step) [0..<c]) (body i s)"
      unfolding c_def using 1(1)[OF _ True st] st by simp
    finally show ?thesis unfolding cc m by simp
  qed
qed

lemma for_stride_strided:
  "0 < step \<Longrightarrow> for_stride 0 n step body = fold body (strided step n)"
  by (rule ext) (simp add: for_stride_fold strided_def)

lemma strided_less: "0 < step \<Longrightarrow> x \<in> set (strided step n) \<Longrightarrow> x < n"
proof -
  assume st: "0 < step" and x: "x \<in> set (strided step n)"
  then obtain k where k: "x = k * step" "k < (n + step - 1) div step"
    by (auto simp: strided_def)
  then have "Suc k \<le> (n + step - 1) div step" by simp
  then have "Suc k * step \<le> n + step - 1" using st by (simp add: less_eq_div_iff_mult_less_eq)
  then show "x < n" using k st by simp
qed

lemma strided_1: "strided 1 n = [0..<n]"
  by (simp add: strided_def map_idI)

lemma length_strided: "length (strided step n) = (n + step - 1) div step"
  by (simp add: strided_def)

lemma fold_visitPixel:
  "fold (visitPixel cv dpt (fdiv (real (canvas_width cv)) 2) (fdiv (real (canvas_height cv)) 2) y) xs (ps, cs)
     = (ps @ concat (map (\<lambda>x. pointPosition cv dpt (x, y)) (filter (\<lambda>x. 128 < channel cv 3 x y) xs)),
        cs @ concat (map (\<lambda>x. pointColor cv (x, y)) (filter (\<lambda>x. 128 < channel cv 3 x y) xs)))"
proof (induction xs arbitrary: ps cs)
  case Nil
  then show ?case by simp
next
  case (Cons x xs)
  show ?case
    by (simp add: Cons.IH)
       (simp add: visitPixel_def Let_def channel_def pointPosition_def pointColor_def Cons.IH)
qed

lemma fold_rows:
  "fold (\<lambda>y acc. fold (visitPixel cv dpt (fdiv (real (canvas_width cv)) 2)
                          (fdiv (real (canvas_height cv)) 2) y) xs acc) ys (ps, cs)
     = (ps @ concat (map (pointPosition cv dpt)
               (concat (map (\<lambda>y. map (\<lambda>x. (x, y)) (filter (\<lambda>x. 128 < channel cv 3 x y) xs)) ys))),
        cs @ concat (map (pointColor cv)
               (concat (map (\<lambda>y. map (\<lambda>x. (x, y)) (filter (\<lambda>x. 128 < channel cv 3 x y) xs)) ys))))"
proof (induction ys arbitrary: ps cs)
  case Nil
  then show ?case by simp
next
  case (Cons y ys)
  show ?case by (simp add: fold_visitPixel Cons.IH comp_def)
qed

lemma pointStep_pos: "0 < pointStep d"
  by (simp add: pointStep_def)

lemma createASCIIPoints_spec:
  assumes "has_context cv" "0 < canvas_width cv" "0 < canvas_height cv"
  shows "createASCIIPoints cv opts =
     Inr \<lparr>position_attr = map f32 (concat (map
              (pointPosition cv (case depth opts of None \<Rightarrow> DEFAULT_DEPTH | Some d \<Rightarrow> d))
              (visiblePixels cv (pointStep (case asciiDensity opts of None \<Rightarrow> lit (6/10) | Some d \<Rightarrow> d))))),
          color_attr = map f32 (concat (map (pointColor cv)
              (visiblePixels cv (pointStep (case asciiDensity opts of None \<Rightarrow> lit (6/10) | Some d \<Rightarrow> d)))))\<rparr>"
  using assms
  by (simp add: createASCIIPoints_def Let_def for_stride_strided pointStep_pos fold_rows
      visiblePixels_def)

lemma visiblePixels_opaque:
  assumes op: "fully_opaque cv" and st: "0 < step"
  shows "visiblePixels cv step =
           concat (map (\<lambda>y. map (\<lambda>x. (x, y)) (strided step (canvas_width cv)))
                      (strided step (canvas_height cv)))"
proof -
  have row: "filter (\<lambda>x. 128 < channel cv 3 x y) (strided step (canvas_width cv))
               = strided step (canvas_width cv)"
    if y: "y \<in> set (strided step (canvas_height cv))" for y
  proof -
    have "\<forall>x \<in> set (strided step (canvas_width cv)). 128 < channel cv 3 x y"
      using op strided_less[OF st] y by (auto simp: fully_opaque_def)
    then show ?thesis by (simp add: filter_id_conv)
  qed
  have "map (\<lambda>y. map (\<lambda>x. (x, y))
               (filter (\<lambda>x. 128 < channel cv 3 x y) (strided step (canvas_width cv))))
          (strided step (canvas_height cv))
        = map (\<lambda>y. map (\<lambda>x. (x, y)) (strided step (canvas_width cv)))
            (strided step (canvas_height cv))"
    by (rule map_cong[OF refl]) (simp only: row)
  then show ?thesis unfolding visiblePixels_def by (rule arg_cong)
qed

lemma length_concat_rows:
  "length (concat (map (\<lambda>y. map (f y) xs) ys)) = length ys * length xs"
  by (induction ys) simp_all

lemma length_visiblePixels_opaque:
  "fully_opaque cv \<Longrightarrow> 0 < step \<Longrightarrow>
   length (visiblePixels cv step)
     = ((canvas_height cv + step - 1) div step) * ((canvas_width cv + step - 1) div step)"
  by (simp add: visiblePixels_opaque length_concat_rows length_strided)

lemma pointStep_1: "pointStep 1 = 1"
  by (simp add: pointStep_def fdiv_def fl_1)

lemma pointStep_half: "pointStep (1/2) = 2"
  by (simp add: pointStep_def fdiv_def fl_numeral)

lemma length_concat_triples:
  "(\<And>p. length (f p) = 3) \<Longrightarrow> length (concat (map f ps)) = 3 * length ps"
  by (induction ps) simp_all

text \<open>
  Claim C8. \<open>createASCIIPoints\<close> visits the pixels whose coordinates are multiples of
  \<open>step = max 1 (floor (1 / density))\<close> on both axes, and emits, in scan order, exactly one
  point for each visited pixel whose alpha byte is above 128: its position is
  \<open>((x - cx) * 0.1, - (y - cy) * 0.1, luminance * depth)\<close> and its colour the three
  channels divided by 255, each stored as binary32. On a fully opaque canvas density 1
  gives one point per pixel and density 0.5 gives \<open>ceil (w / 2) * ceil (h / 2)\<close> points, a
  quarter of them when both sides are even.
\<close>

theorem point_cloud_sampling:
  assumes "wf_canvas cv" "has_context cv" "0 < canvas_width cv" "0 < canvas_height cv"
    and "asciiDensity opts = Some density" "0 < density"
    and "dpt = (case depth opts of None \<Rightarrow> DEFAULT_DEPTH | Some d \<Rightarrow> d)"
  shows "createASCIIPoints cv opts =
           Inr \<lparr>position_attr = map f32 (concat (map (pointPosition cv dpt)
                                    (visiblePixels cv (nat (max 1 \<lfloor>fdiv 1 density\<rfloor>))))),
                color_attr = map f32 (concat (map (pointColor cv)
                                    (visiblePixels cv (nat (max 1 \<lfloor>fdiv 1 density\<rfloor>)))))\<rparr>
         \<and> (fully_opaque cv \<and> density = 1 \<longrightarrow>
              length (visiblePixels cv (nat (max 1 \<lfloor>fdiv 1 density\<rfloor>)))
                = canvas_width cv * canvas_height cv)
         \<and> (fully_opaque cv \<and> density = 1/2 \<longrightarrow>
              length (visiblePixels cv (nat (max 1 \<lfloor>fdiv 1 density\<rfloor>)))
                = ((canvas_width cv + 1) div 2) * ((canvas_height cv + 1) div 2))"
proof -
  have a: "createASCIIPoints cv opts =
           Inr \<lparr>position_attr = map f32 (concat (map (pointPosition cv dpt)
                                    (visiblePixels cv (nat (max 1 \<lfloor>fdiv 1 density\<rfloor>))))),
                color_attr = map f32 (concat (map (pointColor cv)
                                    (visiblePixels cv (nat (max 1 \<lfloor>fdiv 1 density\<rfloor>)))))\<rparr>"
    using createASCIIPoints_spec[OF assms(2-4), of opts] assms(5,7)
    by (simp add: pointStep_def)
  have s1: "nat (max 1 \<lfloor>fdiv 1 1\<rfloor>) = 1" using pointStep_1 by (simp add: pointStep_def)
  have s2: "nat (max 1 \<lfloor>fdiv 1 (1/2)\<rfloor>) = 2" using pointStep_half by (simp add: pointStep_def)
  have b: "length (visiblePixels cv (nat (max 1 \<lfloor>fdiv 1 density\<rfloor>))) = canvas_width cv * canvas_height cv"
    if "fully_opaque cv \<and> density = 1"
  proof -
    have "length (visiblePixels cv 1) = canvas_width cv * canvas_height cv"
      using that by (simp add: length_visiblePixels_opaque mult.commute)
    moreover have d: "density = 1" using that by blast
    ultimately show ?thesis by (simp only: d s1)
  qed
  have c: "length (visiblePixels cv (nat (max 1 \<lfloor>fdiv 1 density\<rfloor>)))
        = ((canvas_width cv + 1) div 2) * ((canvas_height cv + 1) div 2)"
    if "fully_opaque cv \<and> density = 1/2"
  proof -
    have "length (visiblePixels cv 2) = ((canvas_width cv + 1) div 2) * ((canvas_height cv + 1) div 2)"
      using that by (simp add: length_visiblePixels_opaque mult.commute)
    moreover have d: "density = 1/2" using that by blast
    ultimately show ?thesis by (simp only: d s2)
  qed
  show ?thesis
    apply (intro conjI impI)
      apply (rule a)
     apply (erule b)
    apply (erule c)
    done
qed

text \<open>A 2 x 2 opaque canvas at density 0.5: the one point of the pixel \<open>(0, 0)\<close>.\<close>

theorem point_cloud_sampling_witness:
  "wf_canvas opaque2x2 \<and> has_context opaque2x2
   \<and> 0 < canvas_width opaque2x2 \<and> 0 < canvas_height opaque2x2
   \<and> asciiDensity (density_opts (1/2)) = Some (1/2) \<and> (0::real) < 1/2
   \<and> fully_opaque opaque2x2
   \<and> createASCIIPoints opaque2x2 (density_opts (1/2)) =
        Inr \<lparr>position_attr = map f32 (pointPosition opaque2x2 DEFAULT_DEPTH (0, 0)),
             color_attr = [1, 0, 0]\<rparr>
   \<and> length (visiblePixels opaque2x2 2) = ((2 + 1) div 2) * ((2 + 1) div 2)"
proof -
  have h: "wf_canvas opaque2x2" "has_context opaque2x2"
    "0 < canvas_width opaque2x2" "0 < canvas_height opaque2x2"
    by (simp_all add: wf_canvas_def opaque2x2_def)
  have o: "asciiDensity (density_opts (1/2)) = Some (1/2)"
    "DEFAULT_DEPTH = (case depth (density_opts (1/2)) of None \<Rightarrow> DEFAULT_DEPTH | Some d \<Rightarrow> d)"
    by (simp_all add: density_opts_def)
  have op: "fully_opaque opaque2x2"
    unfolding fully_opaque_def
  proof (intro allI impI)
    fix x y assume "x < canvas_width opaque2x2" "y < canvas_height opaque2x2"
    then have "x = 0 \<or> x = 1" "y = 0 \<or> y = 1" by (auto simp: opaque2x2_def)
    then show "channel opaque2x2 3 x y = 255" by (auto simp: channel_def opaque2x2_def)
  qed
  have s2: "nat (max 1 \<lfloor>fdiv 1 (1/2)\<rfloor>) = 2"
    by (simp add: fdiv_def fl_numeral)
  have v: "visiblePixels opaque2x2 2 = [(0, 0)]"
    by (simp add: visiblePixels_def strided_def opaque2x2_def channel_def)
  have c: "map f32 (pointColor opaque2x2 (0, 0)) = [1, 0, 0]"
    by (simp add: pointColor_def channel_def opaque2x2_def fdiv_def fl_0 fl_1 f32_0 f32_1)
  have w: "canvas_width opaque2x2 = 2" "canvas_height opaque2x2 = 2"
    by (simp_all add: opaque2x2_def)
  show ?thesis
    using point_cloud_sampling[OF h o(1) _ o(2)] h o(1) op
    unfolding s2 v w by (simp add: c)
qed

section \<open>The group of meshes: weights, depths, caches, disposal\<close>

lemma extends_refl: "extends st st"
  by (simp add: extends_def)

lemma extends_trans: "extends a b \<Longrightarrow> extends b c \<Longrightarrow> extends a c"
  unfolding extends_def by (auto intro: map_le_trans)

lemma placed_extends:
  assumes "placed st0 d st c m" "extends st st'"
  shows "placed st0 d st' c m"
proof -
  have g: "mesh_geometry m < next_id st" using assms(1) by (simp add: placed_def)
  then have "boxes st' (mesh_geometry m) = boxes st (mesh_geometry m)"
    using assms(2) by (simp add: extends_def)
  then have b: "boxDepth st' (mesh_geometry m) = boxDepth st (mesh_geometry m)"
    by (simp add: boxDepth_def)
  have mc: "materialCache st' c = Some (mesh_material m)"
    using assms by (auto simp: placed_def extends_def map_le_def dom_def)
  have n: "mesh_geometry m < next_id st'" using g assms(2) by (simp add: extends_def)
  show ?thesis using assms(1) mc n unfolding placed_def b by simp
qed

lemma cache_ok_extends:
  assumes "cache_ok st0 d st gc" "extends st st'"
  shows "cache_ok st0 d st' gc"
  unfolding cache_ok_def
proof (intro allI impI)
  fix k g assume kg: "gc k = Some g"
  then have h: "next_id st0 \<le> g" "g < next_id st"
    "\<exists>c'. boxDepth st g = Some (actualDepth d (getCharWeight c'))
           \<and> toFixed2 (actualDepth d (getCharWeight c')) = k"
    using assms(1) unfolding cache_ok_def by blast+
  have "boxes st' g = boxes st g" using h(2) assms(2) by (simp add: extends_def)
  then have b: "boxDepth st' g = boxDepth st g" by (simp add: boxDepth_def)
  have "g < next_id st'" using h(2) assms(2) by (simp add: extends_def)
  then show "next_id st0 \<le> g \<and> g < next_id st'
      \<and> (\<exists>c'. boxDepth st' g = Some (actualDepth d (getCharWeight c'))
               \<and> toFixed2 (actualDepth d (getCharWeight c')) = k)"
    using h unfolding b by simp
qed

lemma materialFor_extends:
  assumes "materialFor st c = Some (m, st1)"
  shows "extends st st1 \<and> materialCache st1 c = Some m"
proof (cases "materialCache st c")
  case (Some a)
  then show ?thesis using assms by (simp add: materialFor_def extends_refl)
next
  case None
  then have "context2d st" using assms by (simp add: materialFor_def split: if_splits)
  then have st1: "st1 = st\<lparr>next_id := next_id st + 2,
                       textures := (textures st)(next_id st \<mapsto> c),
                       materials := (materials st)(next_id st + 1 \<mapsto> next_id st),
                       materialCache := (materialCache st)(c \<mapsto> next_id st + 1)\<rparr>"
    and m: "m = next_id st + 1"
    using assms None by (auto simp: materialFor_def Let_def)
  show ?thesis using None by (simp add: st1 m extends_def map_le_def dom_def)
qed

lemma materialFor_Some: "context2d st \<Longrightarrow> \<exists>m st1. materialFor st c = Some (m, st1)"
  by (simp add: materialFor_def Let_def split: option.splits)

lemma geometryFor_extends:
  assumes g: "geometryFor st gc (actualDepth d (getCharWeight c)) = (g, st2, gc2)"
    and ok: "cache_ok st0 d st gc" and n: "next_id st0 \<le> next_id st"
  shows "extends st st2 \<and> cache_ok st0 d st2 gc2
         \<and> next_id st0 \<le> g \<and> g < next_id st2
         \<and> (\<exists>c'. boxDepth st2 g = Some (actualDepth d (getCharWeight c'))
                  \<and> toFixed2 (actualDepth d (getCharWeight c'))
                      = toFixed2 (actualDepth d (getCharWeight c)))"
proof (cases "gc (toFixed2 (actualDepth d (getCharWeight c)))")
  case (Some a)
  then have e: "g = a" "st2 = st" "gc2 = gc" using g by (simp_all add: geometryFor_def)
  note h = ok[unfolded cache_ok_def, rule_format, OF Some]
  show ?thesis unfolding e using h ok by (simp add: extends_refl)
next
  case None
  then have e: "g = next_id st"
    "st2 = st\<lparr>next_id := next_id st + 1,
              boxes := (boxes st)(next_id st \<mapsto> (fmul 1 (lit (88/100)),
                         fmul (lit (16/10)) (lit (88/100)), actualDepth d (getCharWeight c)))\<rparr>"
    "gc2 = gc(toFixed2 (actualDepth d (getCharWeight c)) \<mapsto> next_id st)"
    using g by (auto simp: geometryFor_def Let_def)
  have ex: "extends st st2" by (simp add: e extends_def)
  have bd: "boxDepth st2 (next_id st) = Some (actualDepth d (getCharWeight c))"
    by (simp add: e boxDepth_def)
  have ok2: "cache_ok st0 d st2 gc"
    using ok ex by (rule cache_ok_extends)
  have "cache_ok st0 d st2 gc2"
    unfolding cache_ok_def
  proof (intro allI impI)
    fix k a assume ka: "gc2 k = Some a"
    show "next_id st0 \<le> a \<and> a < next_id st2
      \<and> (\<exists>c'. boxDepth st2 a = Some (actualDepth d (getCharWeight c'))
               \<and> toFixed2 (actualDepth d (getCharWeight c')) = k)"
    proof (cases "k = toFixed2 (actualDepth d (getCharWeight c))")
      case True
      then have "a = next_id st" using ka by (simp add: e)
      then show ?thesis using bd n True by (auto simp: e(2))
    next
      case False
      then have "gc k = Some a" using ka by (simp add: e)
      then show ?thesis using ok2 unfolding cache_ok_def by blast
    qed
  qed
  then show ?thesis using ex bd n by (auto simp: e(1)) (simp add: e(2))
qed

lemma placeChar_blank:
  "line ! i = CHR '' '' \<Longrightarrow> placeChar d nl line li i acc = acc"
  by (cases acc) (simp add: placeChar_def)

lemma placeChar_building:
  assumes b: "building st0 d gl acc" and ctx: "context2d st0" and c: "line ! i \<noteq> CHR '' ''"
  shows "building st0 d (gl @ [line ! i]) (placeChar d nl line li i acc)"
proof -
  obtain st gc ms where acc: "acc = (st, gc, ms)" by (cases acc)
  have ex: "extends st0 st" and ok: "cache_ok st0 d st gc"
    and pl: "list_all2 (placed st0 d st) gl ms"
    using b by (simp_all add: building_def acc)
  have "context2d st" using ex ctx by (simp add: extends_def)
  then obtain m st1 where m: "materialFor st (line ! i) = Some (m, st1)"
    using materialFor_Some by blast
  have ex1: "extends st st1" and mc: "materialCache st1 (line ! i) = Some m"
    using materialFor_extends[OF m] by simp_all
  obtain g st2 gc2 where g: "geometryFor st1 gc (actualDepth d (getCharWeight (line ! i))) = (g, st2, gc2)"
    by (metis prod_cases3)
  have ok1: "cache_ok st0 d st1 gc" using ok ex1 by (rule cache_ok_extends)
  have n1: "next_id st0 \<le> next_id st1" using ex ex1 by (simp add: extends_def)
  note G = geometryFor_extends[OF g ok1 n1]
  have ex2: "extends st1 st2" using G by simp
  have e02: "extends st0 st2" using ex ex1 ex2 by (blast intro: extends_trans)
  have e_2: "extends st st2" using ex1 ex2 by (rule extends_trans)
  have old: "list_all2 (placed st0 d st2) gl ms"
    using pl by (rule list_all2_mono) (rule placed_extends[OF _ e_2])
  have mc2: "materialCache st2 (line ! i) = Some m"
    using mc ex2 by (auto simp: extends_def map_le_def dom_def)
  have new: "placed st0 d st2 (line ! i)
      \<lparr>mesh_geometry = g, mesh_material = m,
       mesh_position =
         (fmul (fsub (real i) (fdiv (real (length line)) 2)) 1,
          fmul (fsub (fdiv (real nl) 2) (real li)) (lit (16/10)),
          fmul (fmul (fsub (getCharWeight (line ! i)) (lit (5/10))) d) (lit (2/10)))\<rparr>"
    using G mc2 by (simp add: placed_def)
  have "placeChar d nl line li i acc =
      (st2, gc2, ms @ [\<lparr>mesh_geometry = g, mesh_material = m,
       mesh_position =
         (fmul (fsub (real i) (fdiv (real (length line)) 2)) 1,
          fmul (fsub (fdiv (real nl) 2) (real li)) (lit (16/10)),
          fmul (fmul (fsub (getCharWeight (line ! i)) (lit (5/10))) d) (lit (2/10)))\<rparr>])"
    using c by (simp add: placeChar_def acc Let_def m g)
  then show ?thesis
    using e02 G old new by (simp add: building_def list_all2_appendI)
qed

lemma fold_placeChar_building:
  assumes "building st0 d gl acc" "context2d st0" "k \<le> length line"
  shows "building st0 d (gl @ filter (\<lambda>c. c \<noteq> CHR '' '') (take k line))
           (fold (placeChar d nl line li) [0..<k] acc)"
  using assms(3)
proof (induction k)
  case 0
  then show ?case using assms(1) by simp
next
  case (Suc k)
  then have k: "k < length line" by simp
  have IH: "building st0 d (gl @ filter (\<lambda>c. c \<noteq> CHR '' '') (take k line))
           (fold (placeChar d nl line li) [0..<k] acc)"
    using Suc by simp
  have f: "fold (placeChar d nl line li) [0..<Suc k] acc
             = placeChar d nl line li k (fold (placeChar d nl line li) [0..<k] acc)"
    by simp
  have t: "take (Suc k) line = take k line @ [line ! k]"
    using k by (rule take_Suc_conv_app_nth)
  show ?case
  proof (cases "line ! k = CHR '' ''")
    case True
    show ?thesis unfolding f t placeChar_blank[OF True] using IH True by simp
  next
    case False
    show ?thesis
      unfolding f t using placeChar_building[OF IH assms(2) False, of nl li] False by simp
  qed
qed

lemma fold_lines_building:
  assumes "building st0 d gl acc" "context2d st0" "k \<le> length lines"
  shows "building st0 d (gl @ filter (\<lambda>c. c \<noteq> CHR '' '') (concat (take k lines)))
           (fold (\<lambda>li acc. fold (placeChar d nl (lines ! li) li) [0..<length (lines ! li)] acc)
              [0..<k] acc)"
  using assms(3)
proof (induction k)
  case 0
  then show ?case using assms(1) by simp
next
  case (Suc k)
  then have k: "k < length lines" by simp
  have IH: "building st0 d (gl @ filter (\<lambda>c. c \<noteq> CHR '' '') (concat (take k lines)))
           (fold (\<lambda>li acc. fold (placeChar d nl (lines ! li) li) [0..<length (lines ! li)] acc)
              [0..<k] acc)"
    using Suc by simp
  have f: "fold (\<lambda>li acc. fold (placeChar d nl (lines ! li) li) [0..<length (lines ! li)] acc)
              [0..<Suc k] acc
           = fold (placeChar d nl (lines ! k) k) [0..<length (lines ! k)]
               (fold (\<lambda>li acc. fold (placeChar d nl (lines ! li) li) [0..<length (lines ! li)] acc)
                  [0..<k] acc)"
    by simp
  have t: "take (Suc k) lines = take k lines @ [lines ! k]"
    using k by (rule take_Suc_conv_app_nth)
  show ?case
    unfolding f t
    using fold_placeChar_building[OF IH assms(2) le_refl, of "lines ! k" nl k]
    by simp
qed

lemma createASCIIText3D_building:
  assumes "createASCIIText3D st text h d = (ms, st')" "context2d st"
  shows "\<exists>gc. building st d (glyphs text) (st', gc, ms)"
proof -
  define lines where "lines = filter (\<lambda>line. length line > 0) (split_nl text)"
  define R where "R = fold (\<lambda>li acc. fold (placeChar d (length lines) (lines ! li) li)
                    [0..<length (lines ! li)] acc) [0..<length lines] (st, Map.empty, [])"
  have b0: "building st d [] (st, Map.empty, [])"
    by (simp add: building_def extends_refl cache_ok_def)
  have "building st d ([] @ filter (\<lambda>c. c \<noteq> CHR '' '') (concat (take (length lines) lines))) R"
    unfolding R_def using b0 assms(2) le_refl by (rule fold_lines_building)
  moreover have "glyphs text = filter (\<lambda>c. c \<noteq> CHR '' '') (concat lines)"
    unfolding glyphs_def lines_def ..
  ultimately have B: "building st d (glyphs text) R" by simp
  obtain st2 gc ms2 where f: "R = (st2, gc, ms2)" by (cases R)
  have "createASCIIText3D st text h d = (case R of (st', geometryCache, meshes) \<Rightarrow> (meshes, st'))"
    unfolding createASCIIText3D_def Let_def lines_def[symmetric] R_def ..
  then have "createASCIIText3D st text h d = (ms2, st2)" by (simp add: f)
  then have "ms2 = ms" "st2 = st'" using assms(1) by simp_all
  then show ?thesis using B f by auto
qed

lemma lit_7_10: "lit (7 / 10) = 3152519739159347 / 4503599627370496"
  using fl_eval_as[of 53 "7 / 10" 6305039478318694 "3152519739159347 / 4503599627370496"] by (simp add: lit_def)

lemma lit_3_10: "lit (3 / 10) = 5404319552844595 / 18014398509481984"
  using fl_eval_as[of 54 "3 / 10" 5404319552844595 "5404319552844595 / 18014398509481984"] by (simp add: lit_def)

lemma heavy_scaled: "fmul 1 (3152519739159347 / 4503599627370496) = 3152519739159347 / 4503599627370496"
  using fl_eval_as[of 53 "1 * (3152519739159347 / 4503599627370496)" 6305039478318694 "3152519739159347 / 4503599627370496"] by (simp add: fmul_def)

lemma heavy_factor: "fadd (5404319552844595 / 18014398509481984) (3152519739159347 / 4503599627370496) = 1"
  using fl_eval_as[of 53 "(5404319552844595 / 18014398509481984) + (3152519739159347 / 4503599627370496)" 9007199254740992 "1"] by (simp add: fadd_def)

lemma getCharWeight_cases:
  "getCharWeight c \<in> {1, lit (7/10), lit (3/10), lit (5/10)}"
  by (simp add: getCharWeight_def)

lemma fmul_8_1: "fmul 8 1 = 8"
  by (simp add: fmul_def fl_numeral)

lemma actualDepth_heavy_8: "actualDepth 8 1 = 8"
  by (simp add: actualDepth_def lit_3_10 lit_7_10 heavy_scaled heavy_factor fmul_8_1)

lemma createASCIIText3D_placed:
  assumes "createASCIIText3D st text h d = (ms, st')" "context2d st"
  shows "extends st st'" "list_all2 (placed st d st') (glyphs text) ms"
  using createASCIIText3D_building[OF assms] by (auto simp: building_def)

lemma first_build:
  "createASCIIText3D fresh_component ''@'' h 8 =
     ([\<lparr>mesh_geometry = 2, mesh_material = 1,
         mesh_position = (fmul (fsub 0 (fdiv 1 2)) 1, fmul (fsub (fdiv 1 2) 0) (lit (16/10)),
                          fmul (fmul (fsub 1 (lit (5/10))) 8) (lit (2/10)))\<rparr>],
      fresh_component\<lparr>next_id := 3,
        boxes := [2 \<mapsto> (fmul 1 (lit (88/100)), fmul (lit (16/10)) (lit (88/100)), 8)],
        materials := [1 \<mapsto> 0], textures := [0 \<mapsto> CHR ''@''],
        materialCache := [CHR ''@'' \<mapsto> 1]\<rparr>)"
  by (simp add: createASCIIText3D_def placeChar_def materialFor_def geometryFor_def Let_def
      fresh_component_def getCharWeight_def heavyChars_def actualDepth_heavy_8 numeral_2_eq_2)

lemma list_all2_right:
  "list_all2 P xs ys \<Longrightarrow> y \<in> set ys \<Longrightarrow> \<exists>x. P x y"
  by (induction rule: list_all2_induct) auto

lemma createASCIIText3D_fresh_geometry:
  assumes "createASCIIText3D st text h d = (ms, st')" "context2d st" "m \<in> set ms"
  shows "next_id st \<le> mesh_geometry m \<and> mesh_geometry m < next_id st'"
  using list_all2_right[OF createASCIIText3D_placed(2)[OF assms(1,2)] assms(3)]
  by (auto simp: placed_def)

lemma attachGroup_eq:
  "createASCIIText3D st text h d = (ms, st') \<Longrightarrow>
   attachGroup st text h d = st'\<lparr>groupRef := Some ms\<rparr>"
  by (simp add: attachGroup_def)

text \<open>
  Claim C4, as amended. Every geometry of a group is created during the construction of
  that group, so a group built after the cleanup shares no geometry with it, and the
  cleanup disposes the geometry of every mesh of the group. The material cache belongs to
  the component: the cleanup leaves it as it is, a construction only adds to it, and every
  mesh carries the cached material of its character, so a character seen by an earlier
  group keeps the material (and texture) made for that group.
\<close>

theorem cache_scope_and_disposal:
  assumes "createASCIIText3D st text h d = (ms, st')" "context2d st"
  shows "attachGroup st text h d = st'\<lparr>groupRef := Some ms\<rparr>
       \<and> (\<forall>m \<in> set ms. next_id st \<le> mesh_geometry m \<and> mesh_geometry m < next_id st')
       \<and> mesh_geometry ` set ms \<subseteq> disposed (cleanup (attachGroup st text h d))
       \<and> (\<forall>text2 h2 d2 ms2 st2.
             createASCIIText3D (cleanup (attachGroup st text h d)) text2 h2 d2 = (ms2, st2)
             \<longrightarrow> mesh_geometry ` set ms \<inter> mesh_geometry ` set ms2 = {})
       \<and> materialCache (cleanup (attachGroup st text h d)) = materialCache st'
       \<and> materialCache st \<subseteq>\<^sub>m materialCache st'
       \<and> list_all2 (\<lambda>c m. materialCache st' c = Some (mesh_material m)) (glyphs text) ms"
proof -
  note a = attachGroup_eq[OF assms(1)]
  have ex: "extends st st'" using assms by (rule createASCIIText3D_placed)
  have fr: "\<forall>m \<in> set ms. next_id st \<le> mesh_geometry m \<and> mesh_geometry m < next_id st'"
    using createASCIIText3D_fresh_geometry[OF assms] by blast
  have di: "mesh_geometry ` set ms \<subseteq> disposed (cleanup (attachGroup st text h d))"
    by (simp add: a cleanup_def)
  have c2: "context2d (cleanup (attachGroup st text h d))"
    using ex assms(2) by (simp add: a cleanup_def extends_def)
  have n2: "next_id (cleanup (attachGroup st text h d)) = next_id st'"
    by (simp add: a cleanup_def)
  have dj: "mesh_geometry ` set ms \<inter> mesh_geometry ` set ms2 = {}"
    if b: "createASCIIText3D (cleanup (attachGroup st text h d)) text2 h2 d2 = (ms2, st2)"
    for text2 h2 d2 ms2 st2
  proof -
    have "\<forall>m \<in> set ms2. next_id st' \<le> mesh_geometry m"
      using createASCIIText3D_fresh_geometry[OF b c2] unfolding n2 by blast
    then show ?thesis using fr by fastforce
  qed
  have mc: "materialCache (cleanup (attachGroup st text h d)) = materialCache st'"
    by (simp add: a cleanup_def)
  have le: "materialCache st \<subseteq>\<^sub>m materialCache st'" using ex by (simp add: extends_def)
  have ma: "list_all2 (\<lambda>c m. materialCache st' c = Some (mesh_material m)) (glyphs text) ms"
    using createASCIIText3D_placed(2)[OF assms]
    by (rule list_all2_mono) (simp add: placed_def)
  show ?thesis using a fr di dj mc le ma by blast
qed

lemma first_mount_eq:
  "first_mount = fresh_component\<lparr>next_id := 3,
        boxes := [2 \<mapsto> (fmul 1 (lit (88/100)), fmul (lit (16/10)) (lit (88/100)), 8)],
        materials := [1 \<mapsto> 0], textures := [0 \<mapsto> CHR ''@''],
        materialCache := [CHR ''@'' \<mapsto> 1],
        groupRef := Some [\<lparr>mesh_geometry = 2, mesh_material = 1,
         mesh_position = (fmul (fsub 0 (fdiv 1 2)) 1, fmul (fsub (fdiv 1 2) 0) (lit (16/10)),
                          fmul (fmul (fsub 1 (lit (5/10))) 8) (lit (2/10)))\<rparr>]\<rparr>"
  by (simp add: first_mount_def attachGroup_def first_build)

lemma remount_materials:
  "map_option (map mesh_material) (groupRef remount) = Some [1]"
  by (simp add: remount_def attachGroup_def first_mount_eq cleanup_def createASCIIText3D_def
      placeChar_def materialFor_def geometryFor_def Let_def fresh_component_def split: prod.splits)

text \<open>
  The claim as stated fails: a component shows \<^verbatim>\<open>@\<close> at depth 8, is cleaned up and shows
  \<^verbatim>\<open>@\<close> at depth 2. The second group's mesh carries material 1, made for the first group,
  and the cleanup of the first group disposed geometry 2 only, neither material 1 nor its
  texture 0.
\<close>

theorem shared_material_counterexample:
  "map_option (map mesh_material) (groupRef first_mount) = Some [1]
   \<and> map_option (map mesh_material) (groupRef remount) = Some [1]
   \<and> materials first_mount 1 = Some 0 \<and> textures first_mount 0 = Some (CHR ''@'')
   \<and> disposed (cleanup first_mount) = {2}"
  using remount_materials
  by (simp add: first_mount_eq cleanup_def fresh_component_def)

text \<open>The text \<^verbatim>\<open>@\<close> mounted on a new component and cleaned up.\<close>

theorem cache_scope_and_disposal_witness:
  "createASCIIText3D fresh_component ''@'' 1 8
     = (fst (createASCIIText3D fresh_component ''@'' 1 8),
        snd (createASCIIText3D fresh_component ''@'' 1 8))
   \<and> context2d fresh_component
   \<and> map mesh_geometry (fst (createASCIIText3D fresh_component ''@'' 1 8)) = [2]
   \<and> mesh_geometry ` set (fst (createASCIIText3D fresh_component ''@'' 1 8))
        \<subseteq> disposed (cleanup (attachGroup fresh_component ''@'' 1 8))
   \<and> materialCache (cleanup (attachGroup fresh_component ''@'' 1 8)) (CHR ''@'') = Some 1"
proof -
  have c: "context2d fresh_component" by (simp add: fresh_component_def)
  have m: "map mesh_geometry (fst (createASCIIText3D fresh_component ''@'' 1 8)) = [2]"
    "materialCache (snd (createASCIIText3D fresh_component ''@'' 1 8)) (CHR ''@'') = Some 1"
    by (simp_all add: first_build)
  note T = cache_scope_and_disposal[OF prod.collapse[symmetric] c, of "''@''" 1 8]
  have d: "mesh_geometry ` set (fst (createASCIIText3D fresh_component ''@'' 1 8))
        \<subseteq> disposed (cleanup (attachGroup fresh_component ''@'' 1 8))"
    using T by blast
  have "materialCache (cleanup (attachGroup fresh_component ''@'' 1 8))
          = materialCache (snd (createASCIIText3D fresh_component ''@'' 1 8))"
    using T by blast
  then have e: "materialCache (cleanup (attachGroup fresh_component ''@'' 1 8)) (CHR ''@'') = Some 1"
    by (simp only: m(2))
  show ?thesis
    by (intro conjI prod.collapse[symmetric] c m(1) d e)
qed

section \<open>Depth keys\<close>

lemma round_even_err: "\<bar>of_int (round_even y) - y\<bar> \<le> 1/2"
proof -
  have "of_int \<lfloor>y\<rfloor> \<le> y" "y < of_int \<lfloor>y\<rfloor> + 1" by linarith+
  then show ?thesis by (auto simp: round_even_def Let_def)
qed

lemma fl_rel_err:
  assumes "1 / 2 ^ 1022 \<le> x"
  shows "\<bar>fl x - x\<bar> \<le> x / 2 ^ 53"
proof -
  have x0: "0 < x" using assms by (smt (verit) zero_less_power divide_pos_pos)
  define e where "e = flog2 x"
  have b: "2 powi e \<le> x" "x < 2 powi (e + 1)" using flog2_bounds[OF x0] by (simp_all add: e_def)
  have "(2::real) powi (- 1022) \<le> x" using assms by (simp add: power_int_minus inverse_eq_divide)
  then have "(2::real) powi (- 1022) < 2 powi (e + 1)" using b(2) by linarith
  then have e: "- 1022 < e + 1" by (rule two_powi_less_D)
  have q: "quantum 53 (- 1074) x = e - 52"
    using e x0 by (simp add: quantum_def e_def)
  have f: "fl x = of_int (round_even (x / 2 powi (e - 52))) * 2 powi (e - 52)"
    using x0 by (simp add: fl_def round_fp_def q)
  have p: "0 < (2::real) powi (e - 52)" by (rule two_powi_pos)
  have "fl x - x = (of_int (round_even (x / 2 powi (e - 52))) - x / 2 powi (e - 52)) * 2 powi (e - 52)"
    using p by (simp add: f field_simps)
  then have "\<bar>fl x - x\<bar> = \<bar>of_int (round_even (x / 2 powi (e - 52))) - x / 2 powi (e - 52)\<bar> * 2 powi (e - 52)"
    using p by (simp add: abs_mult)
  also have "\<dots> \<le> 1/2 * 2 powi (e - 52)"
    using round_even_err[of "x / 2 powi (e - 52)"] p by (intro mult_right_mono) simp_all
  also have "\<dots> = 2 powi e / 2 ^ 53"
    by (simp add: power_int_diff)
  also have "\<dots> \<le> x / 2 ^ 53" using b(1) by (simp add: divide_right_mono)
  finally show ?thesis .
qed

lemma medium_scaled: "fmul (3152519739159347 / 4503599627370496) (3152519739159347 / 4503599627370496) = 8827055269646171 / 18014398509481984"
  using fl_eval_as[of 54 "(3152519739159347 / 4503599627370496) * (3152519739159347 / 4503599627370496)" 8827055269646171 "8827055269646171 / 18014398509481984"] by (simp add: fmul_def)

lemma medium_factor: "fadd (5404319552844595 / 18014398509481984) (8827055269646171 / 18014398509481984) = 7115687411245383 / 9007199254740992"
  using fl_eval_as[of 53 "(5404319552844595 / 18014398509481984) + (8827055269646171 / 18014398509481984)" 7115687411245383 "7115687411245383 / 9007199254740992"] by (simp add: fadd_def)

lemma default_scaled: "fmul (1 / 2) (3152519739159347 / 4503599627370496) = 3152519739159347 / 9007199254740992"
  using fl_eval_as[of 54 "(1 / 2) * (3152519739159347 / 4503599627370496)" 6305039478318694 "3152519739159347 / 9007199254740992"] by (simp add: fmul_def)

lemma default_factor: "fadd (5404319552844595 / 18014398509481984) (3152519739159347 / 9007199254740992) = 1463669878895411 / 2251799813685248"
  using fl_eval_as[of 53 "(5404319552844595 / 18014398509481984) + (3152519739159347 / 9007199254740992)" 5854679515581644 "1463669878895411 / 2251799813685248"] by (simp add: fadd_def)

lemma light_scaled: "fmul (5404319552844595 / 18014398509481984) (3152519739159347 / 4503599627370496) = 7566047373982433 / 36028797018963968"
  using fl_eval_as[of 55 "(5404319552844595 / 18014398509481984) * (3152519739159347 / 4503599627370496)" 7566047373982433 "7566047373982433 / 36028797018963968"] by (simp add: fmul_def)

lemma light_factor: "fadd (5404319552844595 / 18014398509481984) (7566047373982433 / 36028797018963968) = 2296835809958953 / 4503599627370496"
  using fl_eval_as[of 53 "(5404319552844595 / 18014398509481984) + (7566047373982433 / 36028797018963968)" 4593671619917906 "2296835809958953 / 4503599627370496"] by (simp add: fadd_def)

lemma lit_1_100: "lit (1 / 100) = 5764607523034235 / 576460752303423488"
  using fl_eval_as[of 59 "1 / 100" 5764607523034235 "5764607523034235 / 576460752303423488"] by (simp add: lit_def)

lemma small_medium_depth: "fmul (5764607523034235 / 576460752303423488) (7115687411245383 / 9007199254740992) = 4554039943197045 / 576460752303423488"
  using fl_eval_as[of 59 "(5764607523034235 / 576460752303423488) * (7115687411245383 / 9007199254740992)" 4554039943197045 "4554039943197045 / 576460752303423488"] by (simp add: fmul_def)

text \<open>The four depth factors \<open>0.3 + weight * 0.7\<close>.\<close>

lemma lit_5_10: "lit (5/10) = 1/2"
  using lit_half by simp

lemma actualDepth_heavy: "actualDepth d 1 = fl d"
  unfolding actualDepth_def lit_3_10 lit_7_10 heavy_scaled heavy_factor
  by (simp add: fmul_def)

lemma actualDepth_medium: "actualDepth d (lit (7/10)) = fl (d * (7115687411245383 / 9007199254740992))"
  unfolding actualDepth_def lit_3_10 lit_7_10 medium_scaled medium_factor
  by (simp only: fmul_def)

lemma actualDepth_default: "actualDepth d (lit (5/10)) = fl (d * (1463669878895411 / 2251799813685248))"
  unfolding actualDepth_def lit_3_10 lit_7_10 lit_5_10 default_scaled default_factor
  by (simp only: fmul_def)

lemma actualDepth_light: "actualDepth d (lit (3/10)) = fl (d * (2296835809958953 / 4503599627370496))"
  unfolding actualDepth_def lit_3_10 lit_7_10 light_scaled light_factor
  by (simp only: fmul_def)

lemma fl_gap:
  assumes d: "1/10 \<le> d" and c: "1/2 \<le> c" "c + 13/100 \<le> c'" "c' \<le> 1"
  shows "0 \<le> fl (d * c)" "fl (d * c) + 1/100 \<le> fl (d * c')"
proof -
  have s: "(1::real) / 2 ^ 1022 \<le> 1/20"
    by (rule order_trans[of _ "1 / 2 ^ 5"]) (simp_all add: divide_le_cancel power_increasing del: power_Suc)
  have dc: "1/20 \<le> d * c" using d c(1) mult_mono[of "1/10" d "1/2" c] by simp
  have dc': "1/20 \<le> d * c'" using d c mult_mono[of "1/10" d "1/2" c'] by simp
  show "0 \<le> fl (d * c)" using dc by (intro fl_nonneg) linarith
  have e1: "\<bar>fl (d * c) - d * c\<bar> \<le> d * c / 2 ^ 53"
    using dc s by (intro fl_rel_err) linarith
  have e2: "\<bar>fl (d * c') - d * c'\<bar> \<le> d * c' / 2 ^ 53"
    using dc' s by (intro fl_rel_err) linarith
  have d0: "0 < d" using d by linarith
  have u: "d * c / 2 ^ 53 \<le> d / 100" "d * c' / 2 ^ 53 \<le> d / 100"
    using d0 c by (simp_all add: field_simps)
  have g: "d * c + 13/100 * d \<le> d * c'"
    using mult_left_mono[OF c(2), of d] d0 by (simp add: algebra_simps)
  have "d / 10 \<ge> 1/100" using d by simp
  then show "fl (d * c) + 1/100 \<le> fl (d * c')" using e1 e2 u g by linarith
qed

lemma toFixed2_gap:
  assumes "0 \<le> a" "a + 1/100 \<le> b"
  shows "toFixed2 a \<noteq> toFixed2 b"
proof -
  have "a * 100 + 1/2 + 1 \<le> b * 100 + 1/2" using assms by simp
  then have "\<lfloor>a * 100 + 1/2\<rfloor> + 1 \<le> \<lfloor>b * 100 + 1/2\<rfloor>"
    by (metis floor_mono floor_add_int of_int_1 add.commute floor_one)
  then show ?thesis using assms by (simp add: toFixed2_def abs_if)
qed

lemma key_gap:
  assumes "1/10 \<le> d" "1/2 \<le> c" "c + 13/100 \<le> c'" "c' \<le> 1"
  shows "toFixed2 (fl (d * c)) \<noteq> toFixed2 (fl (d * c'))"
  using fl_gap[OF assms] by (rule toFixed2_gap)

lemma depth_keys_distinct:
  assumes "1/10 \<le> d"
  shows "inj_on (\<lambda>w. toFixed2 (actualDepth d w)) {1, lit (7/10), lit (3/10), lit (5/10)}"
proof -
  have fl1: "fl d = fl (d * 1)" by simp
  have lm: "toFixed2 (actualDepth d (lit (3/10))) \<noteq> toFixed2 (actualDepth d (lit (5/10)))"
    unfolding actualDepth_light actualDepth_default
    by (rule key_gap[OF assms]) simp_all
  have ld: "toFixed2 (actualDepth d (lit (3/10))) \<noteq> toFixed2 (actualDepth d (lit (7/10)))"
    unfolding actualDepth_light actualDepth_medium
    by (rule key_gap[OF assms]) simp_all
  have lh: "toFixed2 (actualDepth d (lit (3/10))) \<noteq> toFixed2 (actualDepth d 1)"
    unfolding actualDepth_light actualDepth_heavy fl1
    by (rule key_gap[OF assms]) simp_all
  have dm: "toFixed2 (actualDepth d (lit (5/10))) \<noteq> toFixed2 (actualDepth d (lit (7/10)))"
    unfolding actualDepth_default actualDepth_medium
    by (rule key_gap[OF assms]) simp_all
  have dh: "toFixed2 (actualDepth d (lit (5/10))) \<noteq> toFixed2 (actualDepth d 1)"
    unfolding actualDepth_default actualDepth_heavy fl1
    by (rule key_gap[OF assms]) simp_all
  have mh: "toFixed2 (actualDepth d (lit (7/10))) \<noteq> toFixed2 (actualDepth d 1)"
    unfolding actualDepth_medium actualDepth_heavy fl1
    by (rule key_gap[OF assms]) simp_all
  show ?thesis
    using lm ld lh dm dh mh lm[symmetric] ld[symmetric] lh[symmetric] dm[symmetric]
      dh[symmetric] mh[symmetric]
    by (simp add: inj_on_def)
qed

section \<open>Weights and depths of the glyphs\<close>

lemma buckets_disjoint:
  "\<forall>c \<in> set mediumChars. c \<notin> set heavyChars"
  "\<forall>c \<in> set lightChars. c \<notin> set heavyChars \<and> c \<notin> set mediumChars"
  by (simp_all add: heavyChars_def mediumChars_def lightChars_def)

lemma bucket_weights:
  "c \<in> set heavyChars \<Longrightarrow> getCharWeight c = 1"
  "c \<in> set mediumChars \<Longrightarrow> getCharWeight c = lit (7/10)"
  "c \<in> set lightChars \<Longrightarrow> getCharWeight c = lit (3/10)"
  "c \<notin> set heavyChars \<Longrightarrow> c \<notin> set mediumChars \<Longrightarrow> c \<notin> set lightChars
     \<Longrightarrow> getCharWeight c = lit (5/10)"
  using buckets_disjoint by (simp_all add: getCharWeight_def)


lemma small_heavy_depth: "actualDepth (5764607523034235 / 576460752303423488) 1
    = 5764607523034235 / 576460752303423488"
  unfolding actualDepth_heavy using fl_dyadic[of 5764607523034235 59] by simp

lemma small_medium_depth': "actualDepth (5764607523034235 / 576460752303423488)
     (3152519739159347 / 4503599627370496) = 4554039943197045 / 576460752303423488"
  using actualDepth_medium[of "5764607523034235 / 576460752303423488"] small_medium_depth
  by (simp only: lit_7_10 fmul_def)

lemma small_keys:
  "toFixed2 (5764607523034235 / 576460752303423488) = (False, 1)"
  "toFixed2 (4554039943197045 / 576460752303423488) = (False, 1)"
  by (simp_all add: toFixed2_def)

lemma two_glyphs:
  "createASCIIText3D st ''@*'' h d =
     (case placeChar d 1 ''@*'' 0 1 (placeChar d 1 ''@*'' 0 0 (st, Map.empty, [])) of
        (st', geometryCache, meshes) \<Rightarrow> (meshes, st'))"
proof -
  have u: "[0..<2] = [0, 1]" by (simp add: upt_rec)
  show ?thesis by (simp add: createASCIIText3D_def u)
qed


lemma glyph_pair_shared:
  assumes "toFixed2 (actualDepth d (lit (7/10))) = toFixed2 (actualDepth d 1)"
  shows "map mesh_geometry (fst (createASCIIText3D fresh_component ''@*'' h d)) = [2, 2]"
    and "boxDepth (snd (createASCIIText3D fresh_component ''@*'' h d)) 2 = Some (actualDepth d 1)"
  using assms
  by (simp_all add: two_glyphs placeChar_def materialFor_def geometryFor_def Let_def
      fresh_component_def getCharWeight_def heavyChars_def mediumChars_def boxDepth_def)

lemma glyph_pair_distinct:
  assumes "toFixed2 (actualDepth d (lit (7/10))) \<noteq> toFixed2 (actualDepth d 1)"
  shows "map mesh_geometry (fst (createASCIIText3D fresh_component ''@*'' h d)) = [2, 5]"
    and "boxDepth (snd (createASCIIText3D fresh_component ''@*'' h d)) 2 = Some (actualDepth d 1)"
    and "boxDepth (snd (createASCIIText3D fresh_component ''@*'' h d)) 5
           = Some (actualDepth d (lit (7/10)))"
  using assms
  by (simp_all add: two_glyphs placeChar_def materialFor_def geometryFor_def Let_def
      fresh_component_def getCharWeight_def heavyChars_def mediumChars_def boxDepth_def)


lemma default_medium_depth: "fmul 8 (7115687411245383 / 9007199254740992) = 7115687411245383 / 1125899906842624"
  using fl_eval_as[of 50 "8 * (7115687411245383 / 9007199254740992)" 7115687411245383 "7115687411245383 / 1125899906842624"] by (simp add: fmul_def)

lemma actualDepth_medium_8: "actualDepth 8 (lit (7/10)) = 7115687411245383 / 1125899906842624"
  unfolding actualDepth_medium using default_medium_depth by (simp only: fmul_def)

lemma default_keys:
  "toFixed2 (actualDepth 8 (lit (7/10))) \<noteq> toFixed2 (actualDepth 8 1)"
  unfolding actualDepth_medium_8 actualDepth_heavy_8 by (simp add: toFixed2_def)

lemma small_depth_keys:
  "toFixed2 (actualDepth (lit (1/100)) (lit (7/10))) = toFixed2 (actualDepth (lit (1/100)) 1)"
  unfolding lit_1_100 lit_7_10 small_heavy_depth small_medium_depth' small_keys ..

text \<open>
  Claim C3, as amended. A character of the heavy bucket has weight 1.0, one of the medium
  bucket 0.7, one of the light bucket 0.3, and a character of no bucket 0.5 (not the medium
  weight); there is no other weight. The meshes of a group correspond, in order, to the
  non-blank characters of the text. The box of a mesh has the depth
  \<open>charDepth * (0.3 + w * 0.7)\<close> of a weight \<open>w\<close> whose depth has the same two-decimal
  key as the depth of the mesh's own character (the geometry cache is keyed by
  \<^verbatim>\<open>toFixed(2)\<close>). It is the depth of the character's own weight whenever the four depths
  have four different keys, and they have for every \<open>charDepth\<close> of at least 0.1.
\<close>

theorem glyph_weight_and_depth:
  assumes "createASCIIText3D st text h d = (ms, st')" "context2d st"
  shows "(\<forall>c. getCharWeight c \<in> {1, lit (7/10), lit (3/10), lit (5/10)})
       \<and> (\<forall>c. c \<in> set heavyChars \<longrightarrow> getCharWeight c = 1)
       \<and> (\<forall>c. c \<in> set mediumChars \<longrightarrow> getCharWeight c = lit (7/10))
       \<and> (\<forall>c. c \<in> set lightChars \<longrightarrow> getCharWeight c = lit (3/10))
       \<and> (\<forall>c. c \<notin> set heavyChars \<and> c \<notin> set mediumChars \<and> c \<notin> set lightChars
               \<longrightarrow> getCharWeight c = lit (5/10))
       \<and> list_all2
            (\<lambda>c m. \<exists>c'. boxDepth st' (mesh_geometry m)
                            = Some (fmul d (fadd (lit (3/10)) (fmul (getCharWeight c') (lit (7/10)))))
                        \<and> toFixed2 (actualDepth d (getCharWeight c'))
                            = toFixed2 (actualDepth d (getCharWeight c)))
            (glyphs text) ms
       \<and> (inj_on (\<lambda>w. toFixed2 (actualDepth d w)) {1, lit (7/10), lit (3/10), lit (5/10)}
            \<longrightarrow> list_all2
                  (\<lambda>c m. boxDepth st' (mesh_geometry m)
                           = Some (fmul d (fadd (lit (3/10)) (fmul (getCharWeight c) (lit (7/10))))))
                  (glyphs text) ms)
       \<and> (1/10 \<le> d
            \<longrightarrow> list_all2
                  (\<lambda>c m. boxDepth st' (mesh_geometry m)
                           = Some (fmul d (fadd (lit (3/10)) (fmul (getCharWeight c) (lit (7/10))))))
                  (glyphs text) ms)"
proof -
  have p: "list_all2 (placed st d st') (glyphs text) ms"
    using assms by (rule createASCIIText3D_placed)
  have a: "list_all2
            (\<lambda>c m. \<exists>c'. boxDepth st' (mesh_geometry m)
                            = Some (fmul d (fadd (lit (3/10)) (fmul (getCharWeight c') (lit (7/10)))))
                        \<and> toFixed2 (actualDepth d (getCharWeight c'))
                            = toFixed2 (actualDepth d (getCharWeight c)))
            (glyphs text) ms"
    using p by (rule list_all2_mono) (auto simp: placed_def actualDepth_def)
  have b: "list_all2
             (\<lambda>c m. boxDepth st' (mesh_geometry m)
                      = Some (fmul d (fadd (lit (3/10)) (fmul (getCharWeight c) (lit (7/10))))))
             (glyphs text) ms"
    if inj: "inj_on (\<lambda>w. toFixed2 (actualDepth d w)) {1, lit (7/10), lit (3/10), lit (5/10)}"
    using p
  proof (rule list_all2_mono)
    fix c m assume "placed st d st' c m"
    then obtain c' where c': "boxDepth st' (mesh_geometry m) = Some (actualDepth d (getCharWeight c'))"
      "toFixed2 (actualDepth d (getCharWeight c')) = toFixed2 (actualDepth d (getCharWeight c))"
      by (auto simp: placed_def)
    have "getCharWeight c' = getCharWeight c"
      using inj c'(2) getCharWeight_cases[of c'] getCharWeight_cases[of c]
      by (rule inj_onD)
    then show "boxDepth st' (mesh_geometry m)
                 = Some (fmul d (fadd (lit (3/10)) (fmul (getCharWeight c) (lit (7/10)))))"
      using c'(1) by (simp add: actualDepth_def)
  qed
  have w: "\<forall>c. getCharWeight c \<in> {1, lit (7/10), lit (3/10), lit (5/10)}"
    using getCharWeight_cases by blast
  have k: "\<forall>c. c \<in> set heavyChars \<longrightarrow> getCharWeight c = 1"
    "\<forall>c. c \<in> set mediumChars \<longrightarrow> getCharWeight c = lit (7/10)"
    "\<forall>c. c \<in> set lightChars \<longrightarrow> getCharWeight c = lit (3/10)"
    "\<forall>c. c \<notin> set heavyChars \<and> c \<notin> set mediumChars \<and> c \<notin> set lightChars
               \<longrightarrow> getCharWeight c = lit (5/10)"
    using bucket_weights by blast+
  show ?thesis
    using w k a b depth_keys_distinct[of d] by blast
qed

text \<open>
  The text \<^verbatim>\<open>@*\<close> at the default depth 8: a heavy mesh on a box 8 deep and a medium mesh
  on a box 6.32 deep.
\<close>

theorem glyph_weight_and_depth_witness:
  "createASCIIText3D fresh_component ''@*'' 1 8
     = (fst (createASCIIText3D fresh_component ''@*'' 1 8),
        snd (createASCIIText3D fresh_component ''@*'' 1 8))
   \<and> context2d fresh_component
   \<and> glyphs ''@*'' = ''@*''
   \<and> CHR ''@'' \<in> set heavyChars \<and> getCharWeight (CHR ''@'') = 1
   \<and> CHR ''*'' \<in> set mediumChars \<and> getCharWeight (CHR ''*'') = lit (7/10)
   \<and> 1/10 \<le> (8::real)
   \<and> map mesh_geometry (fst (createASCIIText3D fresh_component ''@*'' 1 8)) = [2, 5]
   \<and> boxDepth (snd (createASCIIText3D fresh_component ''@*'' 1 8)) 2 = Some 8
   \<and> boxDepth (snd (createASCIIText3D fresh_component ''@*'' 1 8)) 5
        = Some (7115687411245383 / 1125899906842624)
   \<and> list_all2
        (\<lambda>c m. boxDepth (snd (createASCIIText3D fresh_component ''@*'' 1 8)) (mesh_geometry m)
                 = Some (fmul 8 (fadd (lit (3/10)) (fmul (getCharWeight c) (lit (7/10))))))
        (glyphs ''@*'') (fst (createASCIIText3D fresh_component ''@*'' 1 8))"
proof -
  have c: "context2d fresh_component" by (simp add: fresh_component_def)
  have g: "glyphs ''@*'' = ''@*''" by (simp add: glyphs_def)
  have b: "CHR ''@'' \<in> set heavyChars" "CHR ''*'' \<in> set mediumChars"
    by (simp_all add: heavyChars_def mediumChars_def)
  note t = glyph_weight_and_depth[OF prod.collapse[symmetric] c, of "''@*''" 1 8]
  have w: "getCharWeight (CHR ''@'') = 1" "getCharWeight (CHR ''*'') = lit (7/10)"
    using t b by blast+
  have m: "map mesh_geometry (fst (createASCIIText3D fresh_component ''@*'' 1 8)) = [2, 5]"
    "boxDepth (snd (createASCIIText3D fresh_component ''@*'' 1 8)) 2 = Some 8"
    "boxDepth (snd (createASCIIText3D fresh_component ''@*'' 1 8)) 5
        = Some (7115687411245383 / 1125899906842624)"
    using glyph_pair_distinct[OF default_keys, of 1]
    by (simp_all only: actualDepth_heavy_8 actualDepth_medium_8)
  have l: "list_all2
        (\<lambda>c m. boxDepth (snd (createASCIIText3D fresh_component ''@*'' 1 8)) (mesh_geometry m)
                 = Some (fmul 8 (fadd (lit (3/10)) (fmul (getCharWeight c) (lit (7/10))))))
        (glyphs ''@*'') (fst (createASCIIText3D fresh_component ''@*'' 1 8))"
    using t by simp
  show ?thesis
    using c g b w m l by (intro conjI) simp_all
qed

text \<open>
  The claim as stated fails twice. The letter A is in no bucket and gets the weight 0.5,
  which is none of 1.0, 0.7, 0.3 and is not the weight of the medium character \<^verbatim>\<open>*\<close>. And
  at depth 0.01 the text \<^verbatim>\<open>@*\<close> gives two meshes on one box, 0.01 deep, though the depth
  computed for \<^verbatim>\<open>*\<close> is 0.0079: both depths have the key \<^verbatim>\<open>0.01\<close>.
\<close>

theorem weight_and_depth_counterexample:
  "getCharWeight (CHR ''A'') = 1/2
   \<and> getCharWeight (CHR ''A'') \<notin> {1, lit (7/10), lit (3/10)}
   \<and> getCharWeight (CHR ''*'') = lit (7/10)
   \<and> map mesh_geometry (fst (createASCIIText3D fresh_component ''@*'' 1 (lit (1/100)))) = [2, 2]
   \<and> boxDepth (snd (createASCIIText3D fresh_component ''@*'' 1 (lit (1/100)))) 2
        = Some (lit (1/100))
   \<and> lit (1/100) = 5764607523034235 / 576460752303423488
   \<and> fmul (lit (1/100)) (fadd (lit (3/10)) (fmul (getCharWeight (CHR ''*'')) (lit (7/10))))
        = 4554039943197045 / 576460752303423488"
proof -
  have w: "getCharWeight (CHR ''A'') = 1/2"
    "getCharWeight (CHR ''A'') \<notin> {1, lit (7/10), lit (3/10)}"
    "getCharWeight (CHR ''*'') = lit (7/10)"
    by (simp_all add: getCharWeight_def heavyChars_def mediumChars_def lightChars_def lit_half
      lit_7_10 lit_3_10)
  have h: "actualDepth (lit (1/100)) 1 = lit (1/100)"
    using small_heavy_depth by (simp only: lit_1_100)
  have m: "map mesh_geometry (fst (createASCIIText3D fresh_component ''@*'' 1 (lit (1/100)))) = [2, 2]"
    "boxDepth (snd (createASCIIText3D fresh_component ''@*'' 1 (lit (1/100)))) 2
        = Some (lit (1/100))"
    using glyph_pair_shared[OF small_depth_keys, of 1] by (simp_all only: h)
  have d: "fmul (lit (1/100)) (fadd (lit (3/10)) (fmul (getCharWeight (CHR ''*'')) (lit (7/10))))
        = 4554039943197045 / 576460752303423488"
    using small_medium_depth' unfolding w(3) by (simp only: actualDepth_def lit_1_100 lit_7_10)
  show ?thesis using w m d lit_1_100 by (intro conjI)
qed


end
